theory Spec2Isabelle
  imports Main "HOL-Library.Word"
begin

section \<open>Go values\<close>

text \<open>
  A Go string is a sequence of bytes: \<^typ>\<open>string\<close>.  An \<open>int64\<close> that is only stored and
  compared is an \<^typ>\<open>int\<close>; \<open>ParseInt\<close> below writes the 64-bit range check out.  A
  \<open>float64\<close> is carried as its IEEE-754 bit pattern: the package does no arithmetic on it.
\<close>

type_synonym float64 = "64 word"

definition float_zero :: float64 where
  "float_zero = 0"

definition float_inf :: "bool \<Rightarrow> float64" where
  "float_inf neg = (if neg then 0xFFF0000000000000 else 0x7FF0000000000000)"

typedecl Time

text \<open>
  Errors: \<open>io.EOF\<close>, an error of the underlying reader or file system, and
  \<open>fmt.Errorf("<msg>: %w", err)\<close>.
\<close>

datatype error = EOF | IOError string | Errorf string error

datatype NumError = ErrSyntax | ErrRange

section \<open>The standard library as the package uses it\<close>

text \<open>
  The Unicode tables, the grammar and rounding of floating-point numerals and the RFC 3339
  parser are not part of the package.  They are the fields of \<open>stdlib\<close>; every definition
  that reaches them takes the record as its first argument.  What the library does on ASCII
  bytes is written out.
\<close>

datatype float_scan = Number float64 | OutOfRange bool | Malformed

record stdlib =
  TrimFunc_IsSpace :: "string \<Rightarrow> string"
  TrimRightFunc_IsSpace :: "string \<Rightarrow> string"
  Map_ToUpper :: "string \<Rightarrow> string"
  Map_ToLower :: "string \<Rightarrow> string"
  readFloat :: "string \<Rightarrow> float_scan"
  Parse_RFC3339 :: "string \<Rightarrow> Time option"

definition byte :: "char \<Rightarrow> nat" where
  "byte c = of_char c"

definition RuneSelf :: nat where
  "RuneSelf = 0x80"

definition asciiSpace :: "char \<Rightarrow> bool" where
  "asciiSpace c = (byte c = 0x09 \<or> byte c = 0x0A \<or> byte c = 0x0B \<or> byte c = 0x0C
                   \<or> byte c = 0x0D \<or> byte c = 0x20)"

text \<open>
  \<open>strings.TrimSpace\<close>: the second loop of the library, on the reversed slice
  \<open>s[start:stop]\<close>, then the first loop.  A byte at or above \<open>RuneSelf\<close> hands the rest
  to the Unicode-aware \<open>TrimFunc\<close> or \<open>TrimRightFunc\<close>.
\<close>

fun TrimSpace_stop :: "stdlib \<Rightarrow> string \<Rightarrow> string" where
  "TrimSpace_stop L [] = []"
| "TrimSpace_stop L (c # r) =
     (if byte c \<ge> RuneSelf then TrimRightFunc_IsSpace L (rev (c # r))
      else if asciiSpace c then TrimSpace_stop L r
      else rev (c # r))"

fun TrimSpace :: "stdlib \<Rightarrow> string \<Rightarrow> string" where
  "TrimSpace L [] = []"
| "TrimSpace L (c # s) =
     (if byte c \<ge> RuneSelf then TrimFunc_IsSpace L (c # s)
      else if asciiSpace c then TrimSpace L s
      else TrimSpace_stop L (rev (c # s)))"

definition isLowerASCII :: "char \<Rightarrow> bool" where
  "isLowerASCII c = (byte CHR ''a'' \<le> byte c \<and> byte c \<le> byte CHR ''z'')"

definition isUpperASCII :: "char \<Rightarrow> bool" where
  "isUpperASCII c = (byte CHR ''A'' \<le> byte c \<and> byte c \<le> byte CHR ''Z'')"

definition upperByte :: "char \<Rightarrow> char" where
  "upperByte c = (if isLowerASCII c then char_of (byte c - (byte CHR ''a'' - byte CHR ''A'')) else c)"

definition lowerByte :: "char \<Rightarrow> char" where
  "lowerByte c = (if isUpperASCII c then char_of (byte c + (byte CHR ''a'' - byte CHR ''A'')) else c)"

definition isASCII :: "string \<Rightarrow> bool" where
  "isASCII s = list_all (\<lambda>c. byte c < RuneSelf) s"

text \<open>\<open>strings.ToUpper\<close> and \<open>strings.ToLower\<close>: the ASCII path, else \<open>Map\<close> over the runes.\<close>

definition ToUpper :: "stdlib \<Rightarrow> string \<Rightarrow> string" where
  "ToUpper L s = (if isASCII s then map upperByte s else Map_ToUpper L s)"

definition ToLower :: "stdlib \<Rightarrow> string \<Rightarrow> string" where
  "ToLower L s = (if isASCII s then map lowerByte s else Map_ToLower L s)"

text \<open>
  \<open>strconv.ParseUint(s, 10, 64)\<close>: the loop over the bytes with the accumulator \<open>n\<close>.  A
  byte that is not a decimal digit is a syntax error (base 10 takes no underscore); the
  two overflow checks return a range error at once.
\<close>

definition maxUint64 :: nat where
  "maxUint64 = 2 ^ 64 - 1"

fun ParseUint_loop :: "nat \<Rightarrow> string \<Rightarrow> NumError + nat" where
  "ParseUint_loop n [] = Inr n"
| "ParseUint_loop n (c # s) =
     (if byte CHR ''0'' \<le> byte c \<and> byte c \<le> byte CHR ''9'' then
        (let d = byte c - byte CHR ''0'' in
         if n \<ge> maxUint64 div 10 + 1 then Inl ErrRange
         else if n * 10 + d > maxUint64 then Inl ErrRange
         else ParseUint_loop (n * 10 + d) s)
      else Inl ErrSyntax)"

definition ParseUint :: "string \<Rightarrow> NumError + nat" where
  "ParseUint s = (if s = [] then Inl ErrSyntax else ParseUint_loop 0 s)"

text \<open>\<open>strconv.ParseInt(s, 10, 64)\<close>: the sign, \<open>ParseUint\<close>, then the signed range.\<close>

definition ParseInt :: "string \<Rightarrow> NumError + int" where
  "ParseInt s =
     (if s = [] then Inl ErrSyntax
      else
        let neg = (hd s = CHR ''-'');
            s' = (if hd s = CHR ''+'' \<or> hd s = CHR ''-'' then tl s else s)
        in case ParseUint s' of
             Inl ErrSyntax \<Rightarrow> Inl ErrSyntax
           | Inl ErrRange \<Rightarrow> Inl ErrRange
           | Inr un \<Rightarrow>
               (let cutoff = (2::nat) ^ 63 in
                if \<not> neg \<and> un \<ge> cutoff then Inl ErrRange
                else if neg \<and> un > cutoff then Inl ErrRange
                else Inr (if neg then - int un else int un)))"

text \<open>
  \<open>strconv.ParseFloat(s, 64)\<close> returns a value together with the error: zero with a syntax
  error, an infinity with a range error.  The empty string is a syntax error.
\<close>

definition ParseFloat :: "stdlib \<Rightarrow> string \<Rightarrow> float64 \<times> NumError option" where
  "ParseFloat L s =
     (if s = [] then (float_zero, Some ErrSyntax)
      else case readFloat L s of
             Number v \<Rightarrow> (v, None)
           | OutOfRange neg \<Rightarrow> (float_inf neg, Some ErrRange)
           | Malformed \<Rightarrow> (float_zero, Some ErrSyntax))"

text \<open>
  A \<open>csv.Reader\<close> is the sequence of results that its successive \<open>Read\<close> calls return, a
  record or an error; past the end of the sequence \<open>Read\<close> returns \<open>io.EOF\<close>.
\<close>

type_synonym reader = "(error + string list) list"

fun Read :: "reader \<Rightarrow> (error + string list) \<times> reader" where
  "Read [] = (Inl EOF, [])"
| "Read (x # xs) = (x, xs)"

section \<open>The package\<close>

record Airport =
  ID :: int
  Ident :: string
  Type :: string
  Name :: string
  LatitudeDeg :: float64
  LongitudeDeg :: float64
  ElevationFt :: "int option"
  Continent :: string
  CountryName :: string
  IsoCountry :: string
  RegionName :: string
  IsoRegion :: string
  LocalRegion :: string
  Municipality :: string
  Scheduled :: bool
  GPSCode :: string
  ICAOCode :: string
  IATACode :: string
  LocalCode :: string
  HomeLink :: string
  WikipediaLink :: string
  Keywords :: string
  Score :: "int option"
  LastUpdateTime :: "Time option"

record Store =
  byIATA :: "string \<rightharpoonup> Airport"

text \<open>\<open>toUpperASCII\<close>: the loop over the bytes of \<open>s\<close>.\<close>

primrec toUpperASCII :: "string \<Rightarrow> string" where
  "toUpperASCII [] = []"
| "toUpperASCII (c # s) =
     (if byte c \<ge> byte CHR ''a'' \<and> byte c \<le> byte CHR ''z''
      then char_of (byte c - byte CHR ''a'' + byte CHR ''A'')
      else c) # toUpperASCII s"

text \<open>\<open>(*Store).LookupIATA\<close>: the receiver is a pointer, \<open>None\<close> when nil.\<close>

definition Store_LookupIATA :: "Store option \<Rightarrow> string \<Rightarrow> Airport option \<times> bool" where
  "Store_LookupIATA s code =
     (case s of
        None \<Rightarrow> (None, False)
      | Some st \<Rightarrow>
          if code = [] then (None, False)
          else
            let upper = toUpperASCII code
            in (case byIATA st upper of None \<Rightarrow> (None, False) | Some a \<Rightarrow> (Some a, True)))"

subsection \<open>LoadFromReader\<close>

text \<open>The header loop: \<open>colIndex[strings.TrimSpace(col)] = i\<close>.\<close>

fun colIndex_loop :: "stdlib \<Rightarrow> nat \<Rightarrow> string list \<Rightarrow> (string \<rightharpoonup> nat) \<Rightarrow> (string \<rightharpoonup> nat)" where
  "colIndex_loop L i [] m = m"
| "colIndex_loop L i (col # cs) m = colIndex_loop L (Suc i) cs (m(TrimSpace L col \<mapsto> i))"

text \<open>The closure \<open>get\<close>.\<close>

definition get :: "stdlib \<Rightarrow> (string \<rightharpoonup> nat) \<Rightarrow> string list \<Rightarrow> string \<Rightarrow> string" where
  "get L colIndex rec col =
     (case colIndex col of
        None \<Rightarrow> []
      | Some idx \<Rightarrow> if idx \<ge> length rec then [] else TrimSpace L (rec ! idx))"

text \<open>An optional integer cell (\<open>elevation_ft\<close>, \<open>score\<close>).\<close>

definition optInt :: "string \<Rightarrow> int option" where
  "optInt ev = (if ev \<noteq> [] then (case ParseInt ev of Inr v \<Rightarrow> Some v | Inl err \<Rightarrow> None) else None)"

text \<open>
  The body of the loop for one record that was read: \<open>None\<close> is a \<open>continue\<close>, \<open>Some\<close> the
  airport that is built.
\<close>

definition LoadFromReader_body :: "stdlib \<Rightarrow> (string \<rightharpoonup> nat) \<Rightarrow> string list \<Rightarrow> Airport option" where
  "LoadFromReader_body L colIndex rec =
     (let idStr = get L colIndex rec ''id'' in
      if idStr = [] then None
      else case ParseInt idStr of
        Inl err \<Rightarrow> None
      | Inr id' \<Rightarrow>
         (let lat = fst (ParseFloat L (get L colIndex rec ''latitude_deg''));
              lon = fst (ParseFloat L (get L colIndex rec ''longitude_deg''));
              elev = optInt (get L colIndex rec ''elevation_ft'');
              score = optInt (get L colIndex rec ''score'');
              lastUpdated = (let lu = get L colIndex rec ''last_updated''
                             in if lu \<noteq> [] then Parse_RFC3339 L lu else None);
              sched = (let ss = ToLower L (get L colIndex rec ''scheduled_service'')
                       in ss = ''1'' \<or> ss = ''yes'' \<or> ss = ''true'');
              iata = ToUpper L (TrimSpace L (get L colIndex rec ''iata_code''))
          in if iata = [] then None
             else Some \<lparr> ID = id',
                         Ident = get L colIndex rec ''ident'',
                         Type = get L colIndex rec ''type'',
                         Name = get L colIndex rec ''name'',
                         LatitudeDeg = lat,
                         LongitudeDeg = lon,
                         ElevationFt = elev,
                         Continent = get L colIndex rec ''continent'',
                         CountryName = get L colIndex rec ''country_name'',
                         IsoCountry = get L colIndex rec ''iso_country'',
                         RegionName = get L colIndex rec ''region_name'',
                         IsoRegion = get L colIndex rec ''iso_region'',
                         LocalRegion = get L colIndex rec ''local_region'',
                         Municipality = get L colIndex rec ''municipality'',
                         Scheduled = sched,
                         GPSCode = get L colIndex rec ''gps_code'',
                         ICAOCode = get L colIndex rec ''icao_code'',
                         IATACode = iata,
                         LocalCode = get L colIndex rec ''local_code'',
                         HomeLink = get L colIndex rec ''home_link'',
                         WikipediaLink = get L colIndex rec ''wikipedia_link'',
                         Keywords = get L colIndex rec ''keywords'',
                         Score = score,
                         LastUpdateTime = lastUpdated \<rparr>))"

text \<open>
  The \<open>for\<close> loop: \<open>reader.Read()\<close>, \<open>break\<close> on \<open>io.EOF\<close>, return on any other error,
  else the body and the insertion of a key that is not there yet.
\<close>

fun LoadFromReader_loop ::
  "stdlib \<Rightarrow> (string \<rightharpoonup> nat) \<Rightarrow> reader \<Rightarrow> (string \<rightharpoonup> Airport) \<Rightarrow> error + (string \<rightharpoonup> Airport)" where
  "LoadFromReader_loop L colIndex [] idx = Inr idx"
| "LoadFromReader_loop L colIndex (Inl err # rest) idx =
     (if err = EOF then Inr idx else Inl (Errorf ''read record'' err))"
| "LoadFromReader_loop L colIndex (Inr rec # rest) idx =
     (case LoadFromReader_body L colIndex rec of
        None \<Rightarrow> LoadFromReader_loop L colIndex rest idx
      | Some airport \<Rightarrow>
          LoadFromReader_loop L colIndex rest
            (if idx (IATACode airport) = None then idx(IATACode airport \<mapsto> airport)
             else idx))"

definition LoadFromReader :: "stdlib \<Rightarrow> reader \<Rightarrow> error + Store" where
  "LoadFromReader L r =
     (case Read r of
        (Inl err, reader) \<Rightarrow> Inl (Errorf ''read header'' err)
      | (Inr header, reader) \<Rightarrow>
          (let colIndex = colIndex_loop L 0 header Map.empty
           in case LoadFromReader_loop L colIndex reader Map.empty of
                Inl err \<Rightarrow> Inl err
              | Inr m \<Rightarrow> Inr \<lparr> byIATA = m \<rparr>))"

subsection \<open>The default store\<close>

text \<open>
  The environment and the file system are the fields of \<open>os\<close>: \<open>Getenv\<close> returns the empty
  string for a variable that is not set, \<open>Open\<close> an error or the reader over the file.
\<close>

record os =
  Getenv :: "string \<Rightarrow> string"
  Open :: "string \<Rightarrow> error + reader"

text \<open>The package variables; \<open>loadOnce\<close> holds whether the \<open>sync.Once\<close> has run.\<close>

record globals =
  defaultStore :: "Store option"
  loadOnce :: bool
  loadErr :: "error option"

definition init_globals :: globals where
  "init_globals = \<lparr> defaultStore = None, loadOnce = False, loadErr = None \<rparr>"

definition defaultCSVPath :: "os \<Rightarrow> string" where
  "defaultCSVPath sys =
     (let p = Getenv sys ''AIRPORTS_CSV_PATH''
      in if p \<noteq> [] then p else ''data/airports-latest.csv'')"

definition LoadFromFile :: "stdlib \<Rightarrow> os \<Rightarrow> string \<Rightarrow> error + Store" where
  "LoadFromFile L sys path =
     (case Open sys path of
        Inl err \<Rightarrow> Inl (Errorf ''open airports csv'' err)
      | Inr f \<Rightarrow> LoadFromReader L f)"

definition ensureDefaultStore ::
  "stdlib \<Rightarrow> os \<Rightarrow> globals \<Rightarrow> (Store option \<times> error option) \<times> globals" where
  "ensureDefaultStore L sys g =
     (let g' =
        (if loadOnce g then g
         else
           let path = defaultCSVPath sys
           in case LoadFromFile L sys path of
                Inl err \<Rightarrow>
                  g\<lparr> loadOnce := True, defaultStore := None,
                     loadErr := Some (Errorf (''iataplaces: failed to load CSV from '' @ path) err) \<rparr>
              | Inr st \<Rightarrow> g\<lparr> loadOnce := True, defaultStore := Some st \<rparr>)
      in ((defaultStore g', loadErr g'), g'))"

definition LookupIATA ::
  "stdlib \<Rightarrow> os \<Rightarrow> globals \<Rightarrow> string \<Rightarrow> (Airport option \<times> bool) \<times> globals" where
  "LookupIATA L sys g code =
     (case ensureDefaultStore L sys g of
        ((store, err), g') \<Rightarrow>
          if err \<noteq> None then ((None, False), g')
          else (Store_LookupIATA store code, g'))"

section \<open>Vocabulary of the properties\<close>

text \<open>
  The column index of a header; the airports that the loop builds from the records it reads,
  in stream order; the result of the \<open>Read\<close> that ends the loop.
\<close>

abbreviation header_index :: "stdlib \<Rightarrow> string list \<Rightarrow> (string \<rightharpoonup> nat)" where
  "header_index L header \<equiv> colIndex_loop L 0 header Map.empty"

fun built :: "stdlib \<Rightarrow> (string \<rightharpoonup> nat) \<Rightarrow> reader \<Rightarrow> Airport list" where
  "built L ci [] = []"
| "built L ci (Inl err # rest) = []"
| "built L ci (Inr rec # rest) =
     (case LoadFromReader_body L ci rec of
        None \<Rightarrow> built L ci rest
      | Some airport \<Rightarrow> airport # built L ci rest)"

fun stop_error :: "reader \<Rightarrow> error" where
  "stop_error [] = EOF"
| "stop_error (Inl err # rest) = err"
| "stop_error (Inr rec # rest) = stop_error rest"

text \<open>Two bytes that differ at most in the case of an ASCII letter.\<close>

definition caseVariant :: "char \<Rightarrow> char \<Rightarrow> bool" where
  "caseVariant c d =
     (c = d \<or> (isLowerASCII c \<and> d = upperByte c) \<or> (isUpperASCII c \<and> d = lowerByte c))"

text \<open>Trimming of the six ASCII white-space bytes on both sides.\<close>

definition trimRightASCII :: "string \<Rightarrow> string" where
  "trimRightASCII s = rev (dropWhile asciiSpace (rev s))"

definition asciiTrim :: "string \<Rightarrow> string" where
  "asciiTrim s = trimRightASCII (dropWhile asciiSpace s)"

text \<open>
  What the keys of the index need from the Unicode paths of the \<open>strings\<close> package: a
  trimmed string has no white space left to trim, upper-casing a string without surrounding
  white space gives one, and no ASCII lower-case letter survives upper-casing.  Nothing is
  asked of the library on ASCII text, where its behaviour is written out above.
\<close>

definition strings_contract :: "stdlib \<Rightarrow> bool" where
  "strings_contract L \<longleftrightarrow>
     (\<forall>s. TrimSpace L (TrimFunc_IsSpace L s) = TrimFunc_IsSpace L s)
   \<and> (\<forall>c s. byte c < RuneSelf \<and> \<not> asciiSpace c \<longrightarrow>
          TrimSpace L (TrimRightFunc_IsSpace L (c # s)) = TrimRightFunc_IsSpace L (c # s))
   \<and> (\<forall>s. TrimSpace L s = s \<longrightarrow> TrimSpace L (Map_ToUpper L s) = Map_ToUpper L s)
   \<and> (\<forall>s. list_all (\<lambda>c. \<not> isLowerASCII c) (Map_ToUpper L s))"

text \<open>A reader whose records hold ASCII cells only.\<close>

definition ascii_reader :: "reader \<Rightarrow> bool" where
  "ascii_reader r = list_all (\<lambda>x. case x of Inl err \<Rightarrow> True | Inr rec \<Rightarrow> list_all isASCII rec) r"

text \<open>
  How a coordinate \<open>v\<close> follows the cell of the column \<open>col\<close>: 0.0 without the column or
  the cell; otherwise the value that \<open>ParseFloat\<close> returns for the trimmed cell (for an
  ASCII cell, the cell without its surrounding ASCII white space), which is 0.0 for an empty
  cell and with a syntax error, and an infinity with a range error.
\<close>

definition coordinate_rule ::
  "stdlib \<Rightarrow> (string \<rightharpoonup> nat) \<Rightarrow> string list \<Rightarrow> string \<Rightarrow> float64 \<Rightarrow> bool" where
  "coordinate_rule L ci rec col v \<longleftrightarrow>
     (ci col = None \<or> (\<exists>i. ci col = Some i \<and> length rec \<le> i) \<longrightarrow> v = float_zero)
   \<and> (\<forall>i. ci col = Some i \<and> i < length rec \<longrightarrow>
          v = fst (ParseFloat L (TrimSpace L (rec ! i)))
        \<and> (isASCII (rec ! i) \<longrightarrow> v = fst (ParseFloat L (asciiTrim (rec ! i)))))
   \<and> (get L ci rec col = [] \<longrightarrow> v = float_zero)
   \<and> (snd (ParseFloat L (get L ci rec col)) = Some ErrSyntax \<longrightarrow> v = float_zero)
   \<and> (snd (ParseFloat L (get L ci rec col)) = Some ErrRange \<longrightarrow>
          v = float_inf False \<or> v = float_inf True)"

section \<open>A standard library and a file system for the examples\<close>

text \<open>
  \<open>bytewise\<close> treats every byte at or above \<open>RuneSelf\<close> as a letter without case and
  reads two floating-point numerals as \<open>strconv\<close> does: \<open>1.5\<close>, and \<open>1e999\<close>, which is
  beyond the largest \<open>float64\<close>; \<open>blank\<close> is the airport of a row with empty cells;
  \<open>no_file\<close> is a file system without the CSV file.
\<close>

definition bytewise :: stdlib where
  "bytewise = \<lparr> TrimFunc_IsSpace = (\<lambda>s. trimRightASCII (dropWhile asciiSpace s)),
                TrimRightFunc_IsSpace = trimRightASCII,
                Map_ToUpper = map upperByte,
                Map_ToLower = map lowerByte,
                readFloat = (\<lambda>s. if s = ''1.5'' then Number 0x3FF8000000000000
                                  else if s = ''1e999'' then OutOfRange False else Malformed),
                Parse_RFC3339 = (\<lambda>s. None) \<rparr>"

definition blank :: Airport where
  "blank = \<lparr> ID = 0, Ident = [], Type = [], Name = [], LatitudeDeg = float_zero,
             LongitudeDeg = float_zero, ElevationFt = None, Continent = [], CountryName = [],
             IsoCountry = [], RegionName = [], IsoRegion = [], LocalRegion = [],
             Municipality = [], Scheduled = False, GPSCode = [], ICAOCode = [], IATACode = [],
             LocalCode = [], HomeLink = [], WikipediaLink = [], Keywords = [], Score = None,
             LastUpdateTime = None \<rparr>"

definition no_file :: os where
  "no_file = \<lparr> Getenv = (\<lambda>name. []), Open = (\<lambda>path. Inl (IOError ''no such file'')) \<rparr>"

section \<open>Bytes and letter case\<close>

lemma byte_less: "byte c < 256"
  by (simp add: byte_def)

lemma byte_char_of: "n < 256 \<Longrightarrow> byte (char_of n) = n"
  by (simp add: byte_def)

lemma byte_inj: "byte c = byte d \<longleftrightarrow> c = d"
  by (simp add: byte_def)

lemma byte_letters:
  "byte CHR ''a'' = 97" "byte CHR ''z'' = 122" "byte CHR ''A'' = 65" "byte CHR ''Z'' = 90"
  by (simp_all add: byte_def)

lemma byte_upperByte: "byte (upperByte c) = (if isLowerASCII c then byte c - 32 else byte c)"
proof (cases "isLowerASCII c")
  case True
  have "byte c - 32 < 256" using byte_less [of c] by arith
  with True show ?thesis by (simp add: upperByte_def byte_letters byte_char_of)
next
  case False
  then show ?thesis by (simp add: upperByte_def)
qed

lemma byte_lowerByte: "byte (lowerByte c) = (if isUpperASCII c then byte c + 32 else byte c)"
proof (cases "isUpperASCII c")
  case True
  then have "byte c + 32 < 256" by (simp add: isUpperASCII_def byte_letters)
  with True show ?thesis by (simp add: lowerByte_def byte_letters byte_char_of)
next
  case False
  then show ?thesis by (simp add: lowerByte_def)
qed

lemma toUpperASCII_step:
  "(if byte c \<ge> byte CHR ''a'' \<and> byte c \<le> byte CHR ''z''
    then char_of (byte c - byte CHR ''a'' + byte CHR ''A'') else c) = upperByte c"
proof (cases "isLowerASCII c")
  case True
  then have "97 \<le> byte c" by (simp add: isLowerASCII_def byte_letters)
  then have "byte c - 97 + 65 = byte c - (97 - 65)" by arith
  then have "byte c - byte CHR ''a'' + byte CHR ''A'' = byte c - (byte CHR ''a'' - byte CHR ''A'')"
    by (simp only: byte_letters)
  then have "char_of (byte c - byte CHR ''a'' + byte CHR ''A'') = upperByte c"
    using True by (simp only: upperByte_def if_True)
  with True show ?thesis by (simp only: isLowerASCII_def if_True simp_thms)
next
  case False
  then show ?thesis by (simp only: upperByte_def isLowerASCII_def if_False)
qed

lemma toUpperASCII_map: "toUpperASCII s = map upperByte s"
  by (induction s) (simp_all only: toUpperASCII.simps toUpperASCII_step list.map)

lemma not_lower_upperByte: "\<not> isLowerASCII (upperByte c)"
  by (auto simp: isLowerASCII_def byte_upperByte byte_letters)

lemma upperByte_fixed: "\<not> isLowerASCII c \<Longrightarrow> upperByte c = c"
  by (simp add: upperByte_def)

lemma upperByte_lowerByte: "isUpperASCII c \<Longrightarrow> upperByte (lowerByte c) = c"
  by (simp add: byte_inj [symmetric] byte_upperByte byte_lowerByte isLowerASCII_def
      isUpperASCII_def byte_letters)

lemma upperByte_idem: "upperByte (upperByte c) = upperByte c"
  by (simp add: upperByte_fixed not_lower_upperByte)

lemma upperByte_upper: "isUpperASCII c \<Longrightarrow> upperByte c = c"
  by (simp add: upperByte_def isUpperASCII_def isLowerASCII_def byte_letters)

lemma lowerByte_fixed: "\<not> isUpperASCII c \<Longrightarrow> lowerByte c = c"
  by (simp add: lowerByte_def)

lemma not_upper_lowerByte: "\<not> isUpperASCII (lowerByte c)"
  by (auto simp: isUpperASCII_def byte_lowerByte byte_letters)

lemma not_upper_upperByte_lower: "isLowerASCII c \<Longrightarrow> isUpperASCII (upperByte c)"
  by (auto simp: isUpperASCII_def isLowerASCII_def byte_upperByte byte_letters)

lemma caseVariant_upper: "caseVariant c d \<Longrightarrow> upperByte c = upperByte d"
  unfolding caseVariant_def
  by (auto simp: upperByte_idem upperByte_lowerByte upperByte_upper)

lemma caseVariant_toUpperASCII:
  "list_all2 caseVariant q q' \<Longrightarrow> toUpperASCII q = toUpperASCII q'"
  unfolding toUpperASCII_map
  by (induction rule: list_all2_induct) (simp_all add: caseVariant_upper)

lemma caseVariant_lower:
  "\<not> isUpperASCII d \<Longrightarrow> caseVariant c d \<longleftrightarrow> lowerByte c = d"
  unfolding caseVariant_def
  using not_upper_upperByte_lower [of c] not_upper_lowerByte [of c] lowerByte_fixed [of c]
  by metis

lemma map_lowerByte_eq:
  "list_all (\<lambda>d. \<not> isUpperASCII d) t \<Longrightarrow> map lowerByte s = t \<longleftrightarrow> list_all2 caseVariant s t"
proof (induction t arbitrary: s)
  case Nil
  then show ?case by simp
next
  case (Cons d t)
  then show ?case by (cases s) (auto simp: caseVariant_lower)
qed

lemma truthy_tokens:
  "list_all (\<lambda>d. \<not> isUpperASCII d) ''1''"
  "list_all (\<lambda>d. \<not> isUpperASCII d) ''yes''"
  "list_all (\<lambda>d. \<not> isUpperASCII d) ''true''"
  by (simp_all add: isUpperASCII_def byte_def)

lemma truthy_ascii:
  assumes "isASCII cell"
  shows "ToLower L cell \<in> {''1'', ''yes'', ''true''}
         \<longleftrightarrow> (\<exists>t \<in> {''1'', ''yes'', ''true''}. list_all2 caseVariant cell t)"
proof -
  from assms have "ToLower L cell \<in> {''1'', ''yes'', ''true''}
      \<longleftrightarrow> map lowerByte cell \<in> {''1'', ''yes'', ''true''}"
    by (simp only: ToLower_def if_True)
  also have "\<dots> \<longleftrightarrow> map lowerByte cell = ''1'' \<or> map lowerByte cell = ''yes''
                      \<or> map lowerByte cell = ''true''"
    by (simp only: insert_iff empty_iff simp_thms)
  also have "\<dots> \<longleftrightarrow> list_all2 caseVariant cell ''1'' \<or> list_all2 caseVariant cell ''yes''
                      \<or> list_all2 caseVariant cell ''true''"
    by (simp only: map_lowerByte_eq [OF truthy_tokens(1)] map_lowerByte_eq [OF truthy_tokens(2)]
        map_lowerByte_eq [OF truthy_tokens(3)])
  also have "\<dots> \<longleftrightarrow> (\<exists>t \<in> {''1'', ''yes'', ''true''}. list_all2 caseVariant cell t)"
    by (simp only: bex_simps insert_iff empty_iff simp_thms ex_disj_distrib simp_thms)
  finally show ?thesis .
qed

lemma toUpperASCII_fixed: "list_all (\<lambda>c. \<not> isLowerASCII c) k \<Longrightarrow> toUpperASCII k = k"
  unfolding toUpperASCII_map by (induction k) (simp_all add: upperByte_fixed)

lemma asciiSpace_upperByte: "asciiSpace (upperByte c) = asciiSpace c"
  by (auto simp: asciiSpace_def byte_upperByte isLowerASCII_def byte_letters)

lemma isASCII_map_upperByte: "isASCII s \<Longrightarrow> isASCII (map upperByte s)"
  by (induction s) (auto simp: isASCII_def byte_upperByte)

section \<open>Trimming\<close>

lemma TrimSpace_stop_ascii:
  "isASCII r \<Longrightarrow> TrimSpace_stop L r = rev (dropWhile asciiSpace r)"
  by (induction r) (simp_all add: isASCII_def)

lemma TrimSpace_ascii:
  "isASCII s \<Longrightarrow> TrimSpace L s = asciiTrim s"
proof (induction s)
  case Nil
  show ?case by (simp add: asciiTrim_def trimRightASCII_def)
next
  case (Cons c s)
  then have "isASCII (rev (c # s))" by (simp add: isASCII_def)
  then have "TrimSpace_stop L (rev (c # s)) = trimRightASCII (c # s)"
    by (simp only: TrimSpace_stop_ascii trimRightASCII_def)
  with Cons show ?case
    by (simp add: asciiTrim_def isASCII_def)
qed

lemma asciiTrim_map_upperByte: "asciiTrim (map upperByte s) = map upperByte (asciiTrim s)"
proof -
  have d: "dropWhile asciiSpace (map upperByte t) = map upperByte (dropWhile asciiSpace t)" for t
    by (induction t) (simp_all add: asciiSpace_upperByte)
  show ?thesis
    by (simp add: asciiTrim_def trimRightASCII_def d rev_map)
qed

lemma trimRight_keeps_head:
  "\<not> P x \<Longrightarrow> \<exists>w. rev (dropWhile P (rev (x # t))) = x # w"
  by (simp add: dropWhile_append3)

lemma dropWhile_trimmed:
  "dropWhile P (rev (dropWhile P (rev (dropWhile P s)))) = rev (dropWhile P (rev (dropWhile P s)))"
proof (cases "dropWhile P s")
  case Nil
  then show ?thesis by (simp only: rev.simps dropWhile.simps)
next
  case (Cons x t)
  then have "\<not> P x" using hd_dropWhile [of P s] by simp
  from trimRight_keeps_head [of P x t, OF this] obtain w
    where "rev (dropWhile P (rev (x # t))) = x # w" by blast
  with \<open>\<not> P x\<close> show ?thesis by (simp only: Cons dropWhile.simps if_False)
qed

lemma asciiTrim_idem: "asciiTrim (asciiTrim s) = asciiTrim s"
  by (simp only: asciiTrim_def trimRightASCII_def dropWhile_trimmed rev_rev_ident dropWhile_idem)

lemma isASCII_dropWhile: "isASCII s \<Longrightarrow> isASCII (dropWhile P s)"
  unfolding isASCII_def list_all_iff using set_dropWhileD by fast

lemma isASCII_asciiTrim: "isASCII s \<Longrightarrow> isASCII (asciiTrim s)"
proof -
  assume "isASCII s"
  then have "isASCII (dropWhile asciiSpace s)" by (rule isASCII_dropWhile)
  then have "isASCII (rev (dropWhile asciiSpace s))" by (simp add: isASCII_def)
  then have "isASCII (dropWhile asciiSpace (rev (dropWhile asciiSpace s)))" by (rule isASCII_dropWhile)
  then show ?thesis by (simp add: asciiTrim_def trimRightASCII_def isASCII_def)
qed

lemma TrimSpace_stop_kept:
  assumes c: "byte c < RuneSelf" "\<not> asciiSpace c"
    and right: "\<And>s. TrimSpace L (TrimRightFunc_IsSpace L (c # s)) = TrimRightFunc_IsSpace L (c # s)"
  shows "TrimSpace L (TrimSpace_stop L (r @ [c])) = TrimSpace_stop L (r @ [c])"
proof (induction r)
  case Nil
  from c show ?case by simp
next
  case (Cons d r)
  consider "byte d \<ge> RuneSelf" | "byte d < RuneSelf" "asciiSpace d" | "byte d < RuneSelf" "\<not> asciiSpace d"
    by linarith
  then show ?case
  proof cases
    case 1
    then have "TrimSpace_stop L ((d # r) @ [c]) = TrimRightFunc_IsSpace L (c # rev r @ [d])"
      by simp
    then show ?thesis by (simp only: right)
  next
    case 2
    then have "TrimSpace_stop L ((d # r) @ [c]) = TrimSpace_stop L (r @ [c])"
      by simp
    with Cons show ?thesis by simp
  next
    case 3
    then have t: "TrimSpace_stop L ((d # r) @ [c]) = c # rev r @ [d]"
      by simp
    have "TrimSpace L (c # rev r @ [d]) = TrimSpace_stop L (rev (c # rev r @ [d]))"
      using c by simp
    also have "rev (c # rev r @ [d]) = (d # r) @ [c]" by simp
    finally show ?thesis using t by simp
  qed
qed

lemma TrimSpace_idem:
  assumes "strings_contract L"
  shows "TrimSpace L (TrimSpace L s) = TrimSpace L s"
proof (induction s)
  case Nil
  show ?case by simp
next
  case (Cons c s)
  consider "byte c \<ge> RuneSelf" | "byte c < RuneSelf" "asciiSpace c" | "byte c < RuneSelf" "\<not> asciiSpace c"
    by linarith
  then show ?case
  proof cases
    case 1
    with assms show ?thesis by (simp add: strings_contract_def)
  next
    case 2
    with Cons show ?thesis by simp
  next
    case 3
    have "TrimSpace L (TrimSpace_stop L (rev s @ [c])) = TrimSpace_stop L (rev s @ [c])"
      using 3 assms by (intro TrimSpace_stop_kept) (simp_all add: strings_contract_def)
    with 3 show ?thesis by simp
  qed
qed

lemma TrimSpace_stop_bytewise:
  "TrimSpace_stop bytewise r = rev (dropWhile asciiSpace r)"
proof (induction r)
  case Nil
  show ?case by simp
next
  case (Cons d r)
  have "byte d \<ge> RuneSelf \<Longrightarrow> \<not> asciiSpace d"
    by (auto simp: asciiSpace_def RuneSelf_def)
  with Cons show ?case
    by (simp add: bytewise_def trimRightASCII_def)
qed

lemma TrimSpace_bytewise: "TrimSpace bytewise s = asciiTrim s"
proof (induction s)
  case Nil
  show ?case by (simp add: asciiTrim_def trimRightASCII_def)
next
  case (Cons c s)
  have n: "byte c \<ge> RuneSelf \<Longrightarrow> \<not> asciiSpace c"
    by (auto simp: asciiSpace_def RuneSelf_def)
  have "TrimSpace_stop bytewise (rev (c # s)) = trimRightASCII (c # s)"
    by (simp only: TrimSpace_stop_bytewise trimRightASCII_def)
  with Cons n show ?case
    by (simp add: asciiTrim_def) (simp add: bytewise_def)
qed

lemma bytewise_contract: "strings_contract bytewise"
proof -
  have a: "TrimSpace bytewise (TrimFunc_IsSpace bytewise s) = TrimFunc_IsSpace bytewise s" for s
  proof -
    have "TrimFunc_IsSpace bytewise s = asciiTrim s" by (simp add: bytewise_def asciiTrim_def)
    then show ?thesis by (simp only: TrimSpace_bytewise asciiTrim_idem)
  qed
  have b: "TrimSpace bytewise (TrimRightFunc_IsSpace bytewise (c # s)) = TrimRightFunc_IsSpace bytewise (c # s)"
    if "\<not> asciiSpace c" for c s
  proof -
    from that have "TrimRightFunc_IsSpace bytewise (c # s) = asciiTrim (c # s)"
      by (simp add: bytewise_def asciiTrim_def)
    then show ?thesis by (simp only: TrimSpace_bytewise asciiTrim_idem)
  qed
  have c: "TrimSpace bytewise (Map_ToUpper bytewise s) = Map_ToUpper bytewise s"
    if "TrimSpace bytewise s = s" for s
  proof -
    have "Map_ToUpper bytewise s = map upperByte s" by (simp add: bytewise_def)
    moreover have "asciiTrim (map upperByte s) = map upperByte s"
      using that by (simp only: asciiTrim_map_upperByte TrimSpace_bytewise)
    ultimately show ?thesis by (simp only: TrimSpace_bytewise)
  qed
  have d: "list_all (\<lambda>c. \<not> isLowerASCII c) (Map_ToUpper bytewise s)" for s
    by (simp add: bytewise_def list_all_iff not_lower_upperByte)
  from a b c d show ?thesis unfolding strings_contract_def by blast
qed

lemma key_normalized:
  assumes "strings_contract L \<or> isASCII g"
  shows "TrimSpace L (ToUpper L (TrimSpace L g)) = ToUpper L (TrimSpace L g)"
    and "list_all (\<lambda>c. \<not> isLowerASCII c) (ToUpper L (TrimSpace L g))"
proof -
  let ?t = "TrimSpace L g"
  have t: "TrimSpace L ?t = ?t"
  proof (cases "isASCII g")
    case True
    then have "?t = asciiTrim g" by (rule TrimSpace_ascii)
    moreover from True have "TrimSpace L (asciiTrim g) = asciiTrim (asciiTrim g)"
      by (intro TrimSpace_ascii isASCII_asciiTrim)
    ultimately show ?thesis by (simp only: asciiTrim_idem)
  next
    case False
    with assms have "strings_contract L" by simp
    then show ?thesis by (rule TrimSpace_idem)
  qed
  have c: "strings_contract L" if "\<not> isASCII ?t"
  proof (rule ccontr)
    assume "\<not> strings_contract L"
    with assms have "isASCII g" by simp
    then have "isASCII ?t" by (simp only: TrimSpace_ascii isASCII_asciiTrim)
    with that show False ..
  qed
  show "TrimSpace L (ToUpper L ?t) = ToUpper L ?t"
  proof (cases "isASCII ?t")
    case True
    then have "TrimSpace L (map upperByte ?t) = asciiTrim (map upperByte ?t)"
      by (intro TrimSpace_ascii isASCII_map_upperByte)
    also have "\<dots> = map upperByte (asciiTrim ?t)" by (rule asciiTrim_map_upperByte)
    also have "asciiTrim ?t = TrimSpace L ?t" using True by (simp only: TrimSpace_ascii)
    finally show ?thesis using True t by (simp only: ToUpper_def if_True)
  next
    case False
    with c t show ?thesis by (simp add: ToUpper_def strings_contract_def)
  qed
  show "list_all (\<lambda>c. \<not> isLowerASCII c) (ToUpper L ?t)"
  proof (cases "isASCII ?t")
    case True
    then show ?thesis by (simp add: ToUpper_def list_all_iff not_lower_upperByte)
  next
    case False
    with c show ?thesis by (simp add: ToUpper_def strings_contract_def)
  qed
qed

section \<open>Parsing numbers\<close>

lemma ParseInt_Nil: "ParseInt [] = Inl ErrSyntax"
  by (simp add: ParseInt_def)

lemma ParseInt_zero: "ParseInt ''0'' = Inr 0"
  by (simp add: ParseInt_def ParseUint_def byte_def maxUint64_def)

lemma ParseInt_int64:
  "ParseInt s = Inr v \<Longrightarrow> - (2 ^ 63) \<le> v \<and> v < 2 ^ 63"
  by (auto simp: ParseInt_def Let_def split: if_splits sum.splits NumError.splits)

lemma optInt_cases:
  "optInt [] = None"
  "optInt ''0'' = Some 0"
  "isl (ParseInt ev) \<Longrightarrow> optInt ev = None"
  "ParseInt ev = Inr v \<Longrightarrow> optInt ev = Some v"
proof -
  show "optInt [] = None" by (simp add: optInt_def)
  show "optInt ''0'' = Some 0" by (simp add: optInt_def ParseInt_zero)
  show "optInt ev = None" if "isl (ParseInt ev)"
    using that by (cases "ParseInt ev") (simp_all add: optInt_def)
  show "optInt ev = Some v" if "ParseInt ev = Inr v"
    using that by (cases "ev = []") (simp_all add: optInt_def ParseInt_Nil)
qed

lemma ParseFloat_Nil: "ParseFloat L [] = (float_zero, Some ErrSyntax)"
  by (simp add: ParseFloat_def)

lemma ParseFloat_syntax: "snd (ParseFloat L s) = Some ErrSyntax \<Longrightarrow> fst (ParseFloat L s) = float_zero"
  by (auto simp: ParseFloat_def split: float_scan.splits if_splits)

lemma ParseFloat_range:
  assumes "snd (ParseFloat L s) = Some ErrRange"
  shows "fst (ParseFloat L s) = float_inf False \<or> fst (ParseFloat L s) = float_inf True"
proof -
  from assms obtain neg where "fst (ParseFloat L s) = float_inf neg"
    by (cases "readFloat L s") (auto simp: ParseFloat_def split: if_splits)
  then show ?thesis by (cases neg) simp_all
qed

section \<open>The loop and its body\<close>

lemma get_absent:
  "ci col = None \<Longrightarrow> get L ci rec col = []"
  "ci col = Some i \<Longrightarrow> length rec \<le> i \<Longrightarrow> get L ci rec col = []"
  "ci col = Some i \<Longrightarrow> i < length rec \<Longrightarrow> get L ci rec col = TrimSpace L (rec ! i)"
  by (simp_all add: get_def)

lemma isASCII_get: "list_all isASCII rec \<Longrightarrow> isASCII (get L ci rec col)"
proof (cases "ci col")
  case None
  then show ?thesis by (simp add: get_def isASCII_def)
next
  case (Some i)
  assume r: "list_all isASCII rec"
  show ?thesis
  proof (cases "i < length rec")
    case True
    with r have a: "isASCII (rec ! i)" by (simp add: list_all_length)
    then have "isASCII (TrimSpace L (rec ! i))" by (simp only: TrimSpace_ascii isASCII_asciiTrim)
    with Some True show ?thesis by (simp add: get_def)
  next
    case False
    with Some show ?thesis by (simp add: get_def isASCII_def)
  qed
qed

lemma coordinate_ruleI:
  assumes v: "v = fst (ParseFloat L (get L ci rec col))"
  shows "coordinate_rule L ci rec col v"
  unfolding coordinate_rule_def
proof (intro conjI impI allI)
  assume "ci col = None \<or> (\<exists>i. ci col = Some i \<and> length rec \<le> i)"
  then have "get L ci rec col = []" by (auto simp: get_def)
  with v show "v = float_zero" by (simp add: ParseFloat_Nil)
next
  fix i assume i: "ci col = Some i \<and> i < length rec"
  then have g: "get L ci rec col = TrimSpace L (rec ! i)" by (simp add: get_def)
  with v show "v = fst (ParseFloat L (TrimSpace L (rec ! i)))" by simp
  assume "isASCII (rec ! i)"
  then have "TrimSpace L (rec ! i) = asciiTrim (rec ! i)" by (rule TrimSpace_ascii)
  with v g show "v = fst (ParseFloat L (asciiTrim (rec ! i)))" by simp
next
  assume "get L ci rec col = []"
  with v show "v = float_zero" by (simp add: ParseFloat_Nil)
next
  assume "snd (ParseFloat L (get L ci rec col)) = Some ErrSyntax"
  with v show "v = float_zero" by (simp add: ParseFloat_syntax)
next
  assume "snd (ParseFloat L (get L ci rec col)) = Some ErrRange"
  from ParseFloat_range [OF this] v
  show "v = float_inf False \<or> v = float_inf True" by simp
qed

lemma body_None_iff:
  "LoadFromReader_body L ci rec = None \<longleftrightarrow>
     get L ci rec ''id'' = [] \<or> isl (ParseInt (get L ci rec ''id''))
     \<or> ToUpper L (TrimSpace L (get L ci rec ''iata_code'')) = []"
  by (simp add: LoadFromReader_body_def Let_def split: sum.splits)

lemma body_Some:
  assumes "LoadFromReader_body L ci rec = Some a"
  shows "ParseInt (get L ci rec ''id'') = Inr (ID a)"
    and "IATACode a = ToUpper L (TrimSpace L (get L ci rec ''iata_code''))"
    and "IATACode a \<noteq> []"
    and "LatitudeDeg a = fst (ParseFloat L (get L ci rec ''latitude_deg''))"
    and "LongitudeDeg a = fst (ParseFloat L (get L ci rec ''longitude_deg''))"
    and "ElevationFt a = optInt (get L ci rec ''elevation_ft'')"
    and "Score a = optInt (get L ci rec ''score'')"
    and "Scheduled a \<longleftrightarrow> ToLower L (get L ci rec ''scheduled_service'') \<in> {''1'', ''yes'', ''true''}"
    and "Name a = get L ci rec ''name''"
  using assms
  by (auto simp: LoadFromReader_body_def Let_def split: sum.splits if_splits)

lemma coordinate_out_of_range:
  assumes "LoadFromReader_body L ci rec = Some a"
    and "get L ci rec ''latitude_deg'' \<noteq> []"
    and "readFloat L (get L ci rec ''latitude_deg'') = OutOfRange neg"
  shows "LatitudeDeg a = float_inf neg"
  using body_Some(4) [OF assms(1)] assms(2,3) by (simp add: ParseFloat_def)

lemma loop_Read:
  "LoadFromReader_loop L ci r idx =
     (case Read r of
        (Inl err, rest) \<Rightarrow> if err = EOF then Inr idx else Inl (Errorf ''read record'' err)
      | (Inr rec, rest) \<Rightarrow>
          (case LoadFromReader_body L ci rec of
             None \<Rightarrow> LoadFromReader_loop L ci rest idx
           | Some airport \<Rightarrow>
               LoadFromReader_loop L ci rest
                 (if idx (IATACode airport) = None then idx(IATACode airport \<mapsto> airport)
                  else idx)))"
  by (cases r rule: stop_error.cases) simp_all

lemma loop_lookup:
  "LoadFromReader_loop L ci rs idx = Inr m \<Longrightarrow>
   m k = (case idx k of Some a \<Rightarrow> Some a
          | None \<Rightarrow> List.find (\<lambda>a. IATACode a = k) (built L ci rs))"
proof (induction rs arbitrary: idx)
  case Nil
  then show ?case by (simp split: option.splits)
next
  case (Cons x rest)
  show ?case
  proof (cases x)
    case (Inl err)
    with Cons.prems show ?thesis by (simp split: option.splits if_splits)
  next
    case (Inr rec)
    show ?thesis
    proof (cases "LoadFromReader_body L ci rec")
      case None
      with Cons.prems Inr have "LoadFromReader_loop L ci rest idx = Inr m" by simp
      from Cons.IH [OF this] show ?thesis using Inr None by (simp split: option.splits)
    next
      case (Some airport)
      let ?idx = "if idx (IATACode airport) = None then idx(IATACode airport \<mapsto> airport) else idx"
      from Cons.prems Inr Some have "LoadFromReader_loop L ci rest ?idx = Inr m" by simp
      from Cons.IH [OF this] show ?thesis using Inr Some
        by (simp split: option.splits if_splits)
    qed
  qed
qed

lemma loop_stop:
  "stop_error rs \<noteq> EOF \<Longrightarrow>
   LoadFromReader_loop L ci rs idx = Inl (Errorf ''read record'' (stop_error rs))"
proof (induction rs arbitrary: idx)
  case Nil
  then show ?case by simp
next
  case (Cons x rest)
  then show ?case by (cases x) (simp_all split: option.splits)
qed

lemma loop_ok:
  "stop_error rs = EOF \<Longrightarrow> \<exists>m. LoadFromReader_loop L ci rs idx = Inr m"
proof (induction rs arbitrary: idx)
  case Nil
  then show ?case by simp
next
  case (Cons x rest)
  then show ?case by (cases x) (simp_all split: option.splits)
qed

lemma loop_skip:
  "LoadFromReader_body L ci rec = None \<Longrightarrow>
   LoadFromReader_loop L ci (before @ Inr rec # after) idx = LoadFromReader_loop L ci (before @ after) idx"
proof (induction before arbitrary: idx)
  case Nil
  then show ?case by simp
next
  case (Cons x before)
  then show ?case by (cases x) (simp_all split: option.splits)
qed

lemma load_skip:
  "LoadFromReader_body L (header_index L header) rec = None \<Longrightarrow>
   LoadFromReader L (Inr header # before @ Inr rec # after) = LoadFromReader L (Inr header # before @ after)"
  by (simp add: LoadFromReader_def loop_skip)

lemma load_lookup:
  assumes "LoadFromReader L (Inr header # rows) = Inr st"
  shows "byIATA st k = List.find (\<lambda>a. IATACode a = k) (built L (header_index L header) rows)"
proof -
  from assms obtain m where m: "LoadFromReader_loop L (header_index L header) rows Map.empty = Inr m"
    and st: "st = \<lparr> byIATA = m \<rparr>"
    by (auto simp: LoadFromReader_def split: sum.splits)
  from loop_lookup [OF m, of k] st show ?thesis by simp
qed

lemma find_first_index:
  assumes "i < length xs" "P (xs ! i)" "\<forall>h<i. \<not> P (xs ! h)"
  shows "List.find P xs = Some (xs ! i)"
  using assms
proof (induction xs arbitrary: i)
  case Nil
  then show ?case by simp
next
  case (Cons x xs)
  show ?case
  proof (cases i)
    case 0
    with Cons.prems show ?thesis by simp
  next
    case (Suc n)
    with Cons.prems have "\<not> P x" by auto
    moreover have "List.find P xs = Some (xs ! n)"
      using Cons.prems Suc by (intro Cons.IH) auto
    ultimately show ?thesis using Suc by simp
  qed
qed

lemma find_key: "List.find (\<lambda>a. IATACode a = k) xs = Some a \<Longrightarrow> IATACode a = k \<and> a \<in> set xs"
  by (induction xs) (auto split: if_splits)

lemma find_append_none:
  "\<forall>b \<in> set xs. \<not> P b \<Longrightarrow> List.find P (xs @ ys) = List.find P ys"
  by (induction xs) simp_all

lemma built_body:
  "a \<in> set (built L ci rs) \<Longrightarrow> \<exists>rec. Inr rec \<in> set rs \<and> LoadFromReader_body L ci rec = Some a"
proof (induction rs)
  case Nil
  then show ?case by simp
next
  case (Cons x rs)
  then show ?case by (cases x) (auto split: option.splits)
qed

lemma built_append_rows:
  "built L ci (map Inr pre @ rest) = built L ci (map Inr pre) @ built L ci rest"
  by (induction pre) (simp_all split: option.splits)

lemma load_row_indexed:
  assumes load: "LoadFromReader L (Inr header # map Inr pre @ Inr rec # after) = Inr st"
    and body: "LoadFromReader_body L (header_index L header) rec = Some a"
    and first: "\<forall>b \<in> set (built L (header_index L header) (map Inr pre)). IATACode b \<noteq> IATACode a"
  shows "byIATA st (IATACode a) = Some a"
proof -
  let ?ci = "header_index L header"
  have "byIATA st (IATACode a)
          = List.find (\<lambda>b. IATACode b = IATACode a) (built L ?ci (map Inr pre @ Inr rec # after))"
    using load by (rule load_lookup)
  also have "\<dots> = List.find (\<lambda>b. IATACode b = IATACode a) (built L ?ci (Inr rec # after))"
    using first by (simp only: built_append_rows find_append_none)
  also have "\<dots> = Some a" using body by simp
  finally show ?thesis .
qed

lemma loaded_airport:
  assumes "LoadFromReader L r = Inr st" "byIATA st k = Some a"
  shows "\<exists>ci rec. Inr rec \<in> set r \<and> LoadFromReader_body L ci rec = Some a \<and> IATACode a = k"
proof -
  from assms obtain header rows where r: "r = Inr header # rows"
    by (cases r rule: Read.cases) (auto simp: LoadFromReader_def split: sum.splits)
  from assms r load_lookup [of L header rows st k]
  have f: "List.find (\<lambda>a. IATACode a = k) (built L (header_index L header) rows) = Some a"
    by simp
  from find_key [OF f] built_body [of a L "header_index L header" rows] r
  show ?thesis by auto
qed

lemma ensure_cached:
  "loadOnce g \<Longrightarrow> ensureDefaultStore L sys g = ((defaultStore g, loadErr g), g)"
  by (simp add: ensureDefaultStore_def)

lemmas go_eval = byte_def RuneSelf_def asciiSpace_def ParseInt_def ParseUint_def maxUint64_def
  ToUpper_def ToLower_def isASCII_def upperByte_def lowerByte_def isLowerASCII_def
  isUpperASCII_def optInt_def ParseFloat_def Let_def char_of_def bit_Suc_0_iff get_def
  LoadFromReader_body_def bytewise_def trimRightASCII_def blank_def

section \<open>Duplicate codes\<close>

text \<open>
  C1.  When two or more of the airports built from the rows carry the same IATA code \<open>k\<close>,
  the index of a successful load holds under \<open>k\<close> the airport of the first such row, and
  that airport is the only one with the code \<open>k\<close> in the index.  With the header
  \<open>id,iata_code\<close> and the rows \<open>1,AAA\<close> and \<open>2,AAA\<close> the index is the single entry
  \<open>AAA\<close> with id 1.
\<close>

theorem first_duplicate_wins:
  assumes load: "LoadFromReader L (Inr header # rows) = Inr st"
    and built: "built L (header_index L header) rows = as"
    and ij: "i < j" "j < length as"
    and dup: "IATACode (as ! i) = k" "IATACode (as ! j) = k"
    and first: "\<forall>h<i. IATACode (as ! h) \<noteq> k"
  shows "byIATA st k = Some (as ! i) \<and> {a \<in> ran (byIATA st). IATACode a = k} = {as ! i}"
proof -
  have look: "byIATA st k' = List.find (\<lambda>a. IATACode a = k') as" for k'
    using load_lookup [OF load, of k'] built by simp
  have "i < length as" using ij by simp
  from find_first_index [of i as "\<lambda>a. IATACode a = k", OF this dup(1) first]
  have k: "byIATA st k = Some (as ! i)"
    by (simp only: look)
  have "a = as ! i" if a: "a \<in> ran (byIATA st)" and ak: "IATACode a = k" for a
  proof -
    from a obtain k' where k': "byIATA st k' = Some a" by (auto simp: ran_def)
    then have "List.find (\<lambda>a. IATACode a = k') as = Some a" by (simp only: look)
    from find_key [OF this] ak have "k' = k" by simp
    with k' k show ?thesis by simp
  qed
  moreover have "as ! i \<in> ran (byIATA st)" using k by (auto simp: ran_def)
  ultimately have "{a \<in> ran (byIATA st). IATACode a = k} = {as ! i}"
    using dup(1) by blast
  with k show ?thesis by simp
qed

theorem first_duplicate_wins_witness:
  "LoadFromReader bytewise [Inr [''id'', ''iata_code''], Inr [''1'', ''AAA''], Inr [''2'', ''AAA'']]
     = Inr \<lparr> byIATA = [''AAA'' \<mapsto> blank\<lparr> ID := 1, IATACode := ''AAA'' \<rparr>] \<rparr>
   \<and> {a \<in> ran [''AAA'' \<mapsto> blank\<lparr> ID := 1, IATACode := ''AAA'' \<rparr>]. IATACode a = ''AAA''}
       = {blank\<lparr> ID := 1, IATACode := ''AAA'' \<rparr>}"
proof -
  let ?a1 = "blank\<lparr> ID := 1, IATACode := ''AAA'' \<rparr>"
  let ?a2 = "blank\<lparr> ID := 2, IATACode := ''AAA'' \<rparr>"
  have l: "LoadFromReader bytewise [Inr [''id'', ''iata_code''], Inr [''1'', ''AAA''], Inr [''2'', ''AAA'']]
     = Inr \<lparr> byIATA = [''AAA'' \<mapsto> ?a1] \<rparr>"
    by (simp add: LoadFromReader_def go_eval)
  have b: "built bytewise (header_index bytewise [''id'', ''iata_code''])
             [Inr [''1'', ''AAA''], Inr [''2'', ''AAA'']] = [?a1, ?a2]"
    by (simp add: go_eval)
  from first_duplicate_wins [OF l b, of 0 1 "''AAA''"] l show ?thesis
    by (simp add: blank_def)
qed

section \<open>Rows without a usable id\<close>

text \<open>
  C2.  A row whose \<open>id\<close> cell is absent (no such column, or an index past the end of the
  row), empty after trimming, or rejected by \<open>ParseInt\<close> builds no airport, and the load
  of a stream with the row returns what the load of the stream without it returns: the same
  index or the same error.
\<close>

theorem bad_id_row_skipped:
  assumes ci: "ci = header_index L header"
    and bad: "ci ''id'' = None
              \<or> (\<exists>i. ci ''id'' = Some i
                    \<and> (length rec \<le> i \<or> TrimSpace L (rec ! i) = []
                        \<or> isl (ParseInt (TrimSpace L (rec ! i)))))"
  shows "LoadFromReader_body L ci rec = None
         \<and> LoadFromReader L (Inr header # before @ Inr rec # after)
             = LoadFromReader L (Inr header # before @ after)"
proof -
  from bad have "get L ci rec ''id'' = [] \<or> isl (ParseInt (get L ci rec ''id''))"
    by (auto simp: get_def)
  then have none: "LoadFromReader_body L ci rec = None"
    by (auto simp: body_None_iff)
  with load_skip [of L header rec before after] ci show ?thesis by simp
qed

theorem bad_id_row_skipped_witness:
  "header_index bytewise [''id'', ''iata_code''] ''id'' = Some 0
   \<and> isl (ParseInt (TrimSpace bytewise ([''x1'', ''BBB''] ! 0)))
   \<and> LoadFromReader_body bytewise (header_index bytewise [''id'', ''iata_code'']) [''x1'', ''BBB''] = None
   \<and> LoadFromReader bytewise [Inr [''id'', ''iata_code''], Inr [''1'', ''AAA''], Inr [''x1'', ''BBB''], Inr [''3'', ''CCC'']]
      = LoadFromReader bytewise [Inr [''id'', ''iata_code''], Inr [''1'', ''AAA''], Inr [''3'', ''CCC'']]
   \<and> LoadFromReader bytewise [Inr [''id'', ''iata_code''], Inr [''1'', ''AAA''], Inr [''3'', ''CCC'']]
      = Inr \<lparr> byIATA = [''AAA'' \<mapsto> blank\<lparr> ID := 1, IATACode := ''AAA'' \<rparr>,
                          ''CCC'' \<mapsto> blank\<lparr> ID := 3, IATACode := ''CCC'' \<rparr>] \<rparr>"
proof -
  have h: "header_index bytewise [''id'', ''iata_code''] ''id'' = Some 0"
    by (simp add: go_eval)
  have p: "isl (ParseInt (TrimSpace bytewise ([''x1'', ''BBB''] ! 0)))"
    by (simp add: go_eval)
  have l: "LoadFromReader bytewise [Inr [''id'', ''iata_code''], Inr [''1'', ''AAA''], Inr [''3'', ''CCC'']]
      = Inr \<lparr> byIATA = [''AAA'' \<mapsto> blank\<lparr> ID := 1, IATACode := ''AAA'' \<rparr>,
                          ''CCC'' \<mapsto> blank\<lparr> ID := 3, IATACode := ''CCC'' \<rparr>] \<rparr>"
    by (simp add: LoadFromReader_def go_eval)
  from bad_id_row_skipped [of "header_index bytewise [''id'', ''iata_code'']" bytewise
      "[''id'', ''iata_code'']" "[''x1'', ''BBB'']" "[Inr [''1'', ''AAA'']]" "[Inr [''3'', ''CCC'']]"]
    h p l
  show ?thesis by simp
qed

section \<open>Rows without an IATA code\<close>

text \<open>
  C3.  A row whose \<open>iata_code\<close> cell is empty after trimming and upper-casing, or has no
  column or no cell at all, builds no airport and leaves the result of the load as it is
  without the row; every airport in the index of a successful load has a non-empty IATA code.
\<close>

theorem empty_iata_row_skipped:
  "((ci ''iata_code'' = None
      \<or> (\<exists>i. ci ''iata_code'' = Some i \<and> length rec \<le> i)
      \<or> ToUpper L (TrimSpace L (get L ci rec ''iata_code'')) = [])
     \<longrightarrow> LoadFromReader_body L ci rec = None
         \<and> (ci = header_index L header \<longrightarrow>
              LoadFromReader L (Inr header # before @ Inr rec # after)
                = LoadFromReader L (Inr header # before @ after)))
   \<and> (LoadFromReader L r = Inr st \<and> byIATA st k = Some a \<longrightarrow> IATACode a \<noteq> [])"
proof (intro conjI impI)
  assume "ci ''iata_code'' = None
      \<or> (\<exists>i. ci ''iata_code'' = Some i \<and> length rec \<le> i)
      \<or> ToUpper L (TrimSpace L (get L ci rec ''iata_code'')) = []"
  then have "ToUpper L (TrimSpace L (get L ci rec ''iata_code'')) = []"
    by (auto simp: get_def ToUpper_def isASCII_def)
  then show none: "LoadFromReader_body L ci rec = None"
    by (simp add: body_None_iff)
  assume "ci = header_index L header"
  with none load_skip [of L header rec before after]
  show "LoadFromReader L (Inr header # before @ Inr rec # after)
          = LoadFromReader L (Inr header # before @ after)"
    by simp
next
  assume a: "LoadFromReader L r = Inr st \<and> byIATA st k = Some a"
  then obtain header rows where r: "r = Inr header # rows"
    by (cases r rule: Read.cases) (auto simp: LoadFromReader_def split: sum.splits)
  from a r load_lookup [of L header rows st k]
  have "List.find (\<lambda>a. IATACode a = k) (built L (header_index L header) rows) = Some a"
    by simp
  from find_key [OF this] have "a \<in> set (built L (header_index L header) rows)" by simp
  from built_body [OF this] obtain rec
    where "LoadFromReader_body L (header_index L header) rec = Some a" by blast
  then show "IATACode a \<noteq> []" by (rule body_Some)
qed

theorem empty_iata_row_skipped_witness:
  "ToUpper bytewise (TrimSpace bytewise (get bytewise (header_index bytewise [''id'', ''iata_code'']) [''5'', ''  ''] ''iata_code'')) = []
   \<and> LoadFromReader_body bytewise (header_index bytewise [''id'', ''iata_code'']) [''5'', ''  ''] = None
   \<and> header_index bytewise [''id''] ''iata_code'' = None
   \<and> LoadFromReader_body bytewise (header_index bytewise [''id'']) [''5''] = None
   \<and> LoadFromReader bytewise [Inr [''id'', ''iata_code''], Inr [''5'', ''  ''], Inr [''3'', '' ccc'']]
      = LoadFromReader bytewise [Inr [''id'', ''iata_code''], Inr [''3'', '' ccc'']]
   \<and> LoadFromReader bytewise [Inr [''id'', ''iata_code''], Inr [''3'', '' ccc'']]
      = Inr \<lparr> byIATA = [''CCC'' \<mapsto> blank\<lparr> ID := 3, IATACode := ''CCC'' \<rparr>] \<rparr>
   \<and> IATACode (blank\<lparr> ID := 3, IATACode := ''CCC'' \<rparr>) \<noteq> []"
proof -
  let ?ci = "header_index bytewise [''id'', ''iata_code'']"
  let ?a = "blank\<lparr> ID := 3, IATACode := ''CCC'' \<rparr>"
  have e: "ToUpper bytewise (TrimSpace bytewise (get bytewise ?ci [''5'', ''  ''] ''iata_code'')) = []"
    by (simp add: go_eval)
  have m: "header_index bytewise [''id''] ''iata_code'' = None"
    by (simp add: go_eval)
  have l: "LoadFromReader bytewise [Inr [''id'', ''iata_code''], Inr [''3'', '' ccc'']]
      = Inr \<lparr> byIATA = [''CCC'' \<mapsto> ?a] \<rparr>"
    by (simp add: LoadFromReader_def go_eval)
  have k: "byIATA \<lparr> byIATA = [''CCC'' \<mapsto> ?a] \<rparr> ''CCC'' = Some ?a"
    by simp
  from empty_iata_row_skipped [of ?ci "[''5'', ''  '']" bytewise "[''id'', ''iata_code'']" "[]"
      "[Inr [''3'', '' ccc'']]" "[Inr [''id'', ''iata_code''], Inr [''3'', '' ccc'']]"
      "\<lparr> byIATA = [''CCC'' \<mapsto> ?a] \<rparr>" "''CCC''" ?a]
    empty_iata_row_skipped [of "header_index bytewise [''id'']" "[''5'']" bytewise]
    e m l k
  show ?thesis by simp
qed

section \<open>When the load fails\<close>

text \<open>
  C4.  The load returns an error, and so no store, exactly when the \<open>Read\<close> of the header
  returns an error (\<open>io.EOF\<close> on an empty stream included) or the \<open>Read\<close> that ends the
  loop returns an error other than \<open>io.EOF\<close>; the error is wrapped as \<open>read header\<close> or
  \<open>read record\<close>.  A non-empty stream of records loads, whatever its cells hold.
\<close>

theorem load_fails_iff:
  "((\<exists>err. LoadFromReader L r = Inl err)
      \<longleftrightarrow> isl (fst (Read r)) \<or> stop_error (snd (Read r)) \<noteq> EOF)
   \<and> (\<forall>err. fst (Read r) = Inl err \<longrightarrow> LoadFromReader L r = Inl (Errorf ''read header'' err))
   \<and> (\<not> isl (fst (Read r)) \<and> stop_error (snd (Read r)) \<noteq> EOF \<longrightarrow>
        LoadFromReader L r = Inl (Errorf ''read record'' (stop_error (snd (Read r)))))
   \<and> (r \<noteq> [] \<and> list_all (\<lambda>x. \<not> isl x) r \<longrightarrow> (\<exists>st. LoadFromReader L r = Inr st))"
proof -
  have hdr: "LoadFromReader L r = Inl (Errorf ''read header'' err)" if "fst (Read r) = Inl err" for err
    using that by (cases "Read r") (simp add: LoadFromReader_def)
  have rec_err: "LoadFromReader L r = Inl (Errorf ''read record'' (stop_error (snd (Read r))))"
    if "\<not> isl (fst (Read r))" "stop_error (snd (Read r)) \<noteq> EOF"
  proof -
    from that(1) obtain header rest where rd: "Read r = (Inr header, rest)"
      by (cases "Read r"; cases "fst (Read r)") auto
    with that(2) loop_stop [of rest L "header_index L header" Map.empty]
    show ?thesis by (simp add: LoadFromReader_def)
  qed
  have ok: "\<exists>st. LoadFromReader L r = Inr st"
    if "\<not> isl (fst (Read r))" "stop_error (snd (Read r)) = EOF"
  proof -
    from that(1) obtain header rest where rd: "Read r = (Inr header, rest)"
      by (cases "Read r"; cases "fst (Read r)") auto
    with that(2) loop_ok [of rest L "header_index L header" Map.empty]
    show ?thesis by (auto simp: LoadFromReader_def)
  qed
  have rows: "stop_error rs = EOF" if "list_all (\<lambda>x. \<not> isl x) rs" for rs
    using that by (induction rs rule: stop_error.induct) simp_all
  have iff: "(\<exists>err. LoadFromReader L r = Inl err)
      \<longleftrightarrow> isl (fst (Read r)) \<or> stop_error (snd (Read r)) \<noteq> EOF"
  proof (cases "isl (fst (Read r))")
    case True
    then obtain err where "fst (Read r) = Inl err" by (cases "fst (Read r)") auto
    from hdr [OF this] True show ?thesis by simp
  next
    case False
    show ?thesis
    proof (cases "stop_error (snd (Read r)) = EOF")
      case True
      with ok [OF False True] False show ?thesis by auto
    next
      case ne: False
      with rec_err [OF False ne] show ?thesis by simp
    qed
  qed
  have all_rows: "\<exists>st. LoadFromReader L r = Inr st" if "r \<noteq> []" "list_all (\<lambda>x. \<not> isl x) r"
  proof -
    from that obtain x rest where r: "r = x # rest" by (cases r) auto
    with that(2) have "\<not> isl (fst (Read r))" "stop_error (snd (Read r)) = EOF"
      by (simp_all add: rows)
    then show ?thesis by (rule ok)
  qed
  from iff hdr rec_err all_rows show ?thesis by blast
qed

theorem load_fails_iff_witness:
  "LoadFromReader bytewise [] = Inl (Errorf ''read header'' EOF)
   \<and> LoadFromReader bytewise [Inl (IOError ''disk'')] = Inl (Errorf ''read header'' (IOError ''disk''))
   \<and> LoadFromReader bytewise [Inr [''id'', ''iata_code''], Inr [''1'', ''AAA''], Inl (IOError ''disk'')]
      = Inl (Errorf ''read record'' (IOError ''disk''))
   \<and> (\<exists>st. LoadFromReader bytewise [Inr [''id'', ''iata_code''], Inr [''x'', ''?''], Inr []] = Inr st)"
proof -
  let ?r = "[Inr [''id'', ''iata_code''], Inr [''1'', ''AAA''], Inl (IOError ''disk'')]"
  let ?ok = "[Inr [''id'', ''iata_code''], Inr [''x'', ''?''], Inr []] :: reader"
  have w1: "fst (Read []) = Inl EOF" by simp
  have w2: "fst (Read [Inl (IOError ''disk'')]) = Inl (IOError ''disk'')" by simp
  have w3: "\<not> isl (fst (Read ?r)) \<and> stop_error (snd (Read ?r)) \<noteq> EOF" by simp
  have w3b: "stop_error (snd (Read ?r)) = IOError ''disk''" by simp
  have w4: "?ok \<noteq> [] \<and> list_all (\<lambda>x. \<not> isl x) ?ok" by simp
  from load_fails_iff [of bytewise "[]"] load_fails_iff [of bytewise "[Inl (IOError ''disk'')]"]
    load_fails_iff [of bytewise ?r] load_fails_iff [of bytewise ?ok] w1 w2 w3 w3b w4
  show ?thesis by metis
qed

section \<open>Lookup and letter case\<close>

text \<open>
  C5.  Two queries that differ only in the case of ASCII letters get the same answer from
  every store, nil or not; an airport stored under \<open>JFK\<close> is returned for \<open>jfk\<close>,
  \<open>Jfk\<close> and \<open>JFK\<close>.
\<close>

theorem lookup_ignores_case:
  "(list_all2 caseVariant q q' \<longrightarrow> Store_LookupIATA s q = Store_LookupIATA s q')
   \<and> (byIATA st ''JFK'' = Some a \<longrightarrow>
        Store_LookupIATA (Some st) ''jfk'' = (Some a, True)
        \<and> Store_LookupIATA (Some st) ''Jfk'' = (Some a, True)
        \<and> Store_LookupIATA (Some st) ''JFK'' = (Some a, True))"
proof (intro conjI impI)
  assume v: "list_all2 caseVariant q q'"
  then have "q = [] \<longleftrightarrow> q' = []" by (cases q; cases q') simp_all
  with caseVariant_toUpperASCII [OF v]
  show "Store_LookupIATA s q = Store_LookupIATA s q'"
    by (simp add: Store_LookupIATA_def split: option.splits)
next
  assume a: "byIATA st ''JFK'' = Some a"
  have u: "toUpperASCII ''jfk'' = ''JFK''" "toUpperASCII ''Jfk'' = ''JFK''" "toUpperASCII ''JFK'' = ''JFK''"
    by (simp_all add: byte_def char_of_def bit_Suc_0_iff)
  show "Store_LookupIATA (Some st) ''jfk'' = (Some a, True)"
    using a by (simp add: Store_LookupIATA_def u(1) del: toUpperASCII.simps)
  show "Store_LookupIATA (Some st) ''Jfk'' = (Some a, True)"
    using a by (simp add: Store_LookupIATA_def u(2) del: toUpperASCII.simps)
  show "Store_LookupIATA (Some st) ''JFK'' = (Some a, True)"
    using a by (simp add: Store_LookupIATA_def u(3) del: toUpperASCII.simps)
qed

theorem lookup_ignores_case_witness:
  "list_all2 caseVariant ''jFk'' ''Jfk''
   \<and> Store_LookupIATA (Some \<lparr> byIATA = [''JFK'' \<mapsto> blank\<lparr> ID := 7, IATACode := ''JFK'' \<rparr>] \<rparr>) ''jFk''
       = Store_LookupIATA (Some \<lparr> byIATA = [''JFK'' \<mapsto> blank\<lparr> ID := 7, IATACode := ''JFK'' \<rparr>] \<rparr>) ''Jfk''
   \<and> Store_LookupIATA (Some \<lparr> byIATA = [''JFK'' \<mapsto> blank\<lparr> ID := 7, IATACode := ''JFK'' \<rparr>] \<rparr>) ''jfk''
       = (Some (blank\<lparr> ID := 7, IATACode := ''JFK'' \<rparr>), True)
   \<and> Store_LookupIATA (Some \<lparr> byIATA = [''JFK'' \<mapsto> blank\<lparr> ID := 7, IATACode := ''JFK'' \<rparr>] \<rparr>) ''Jfk''
       = (Some (blank\<lparr> ID := 7, IATACode := ''JFK'' \<rparr>), True)
   \<and> Store_LookupIATA (Some \<lparr> byIATA = [''JFK'' \<mapsto> blank\<lparr> ID := 7, IATACode := ''JFK'' \<rparr>] \<rparr>) ''JFK''
       = (Some (blank\<lparr> ID := 7, IATACode := ''JFK'' \<rparr>), True)"
proof -
  let ?a = "blank\<lparr> ID := 7, IATACode := ''JFK'' \<rparr>"
  let ?st = "\<lparr> byIATA = [''JFK'' \<mapsto> ?a] \<rparr>"
  have v: "list_all2 caseVariant ''jFk'' ''Jfk''"
    by (simp add: caseVariant_def go_eval)
  have k: "byIATA ?st ''JFK'' = Some ?a" by simp
  from lookup_ignores_case [of "''jFk''" "''Jfk''" "Some ?st" ?st ?a] v k
  show ?thesis by simp
qed

section \<open>Optional integers\<close>

text \<open>
  C6.  In the airport built from a row, \<open>ElevationFt\<close> is absent for an empty
  \<open>elevation_ft\<close> cell, present with the value 0 for the cell \<open>0\<close>, absent for a cell that
  \<open>ParseInt\<close> rejects, and present with the parsed value otherwise; absent and zero
  differ.  \<open>Score\<close> follows the \<open>score\<close> cell in the same way.  Whether a row builds an
  airport depends on its \<open>id\<close> and \<open>iata_code\<close> cells alone.
\<close>

theorem optional_integer_fields:
  "(LoadFromReader_body L ci rec = Some a \<longrightarrow>
      (get L ci rec ''elevation_ft'' = [] \<longrightarrow> ElevationFt a = None)
    \<and> (get L ci rec ''elevation_ft'' = ''0'' \<longrightarrow> ElevationFt a = Some 0)
    \<and> (isl (ParseInt (get L ci rec ''elevation_ft'')) \<longrightarrow> ElevationFt a = None)
    \<and> (\<forall>v. ParseInt (get L ci rec ''elevation_ft'') = Inr v \<longrightarrow> ElevationFt a = Some v)
    \<and> (get L ci rec ''score'' = [] \<longrightarrow> Score a = None)
    \<and> (get L ci rec ''score'' = ''0'' \<longrightarrow> Score a = Some 0)
    \<and> (isl (ParseInt (get L ci rec ''score'')) \<longrightarrow> Score a = None)
    \<and> (\<forall>v. ParseInt (get L ci rec ''score'') = Inr v \<longrightarrow> Score a = Some v))
   \<and> (LoadFromReader_body L ci rec \<noteq> None \<longleftrightarrow>
        (\<exists>v. ParseInt (get L ci rec ''id'') = Inr v)
        \<and> ToUpper L (TrimSpace L (get L ci rec ''iata_code'')) \<noteq> [])
   \<and> (None :: int option) \<noteq> Some 0"
proof (intro conjI impI allI)
  assume b: "LoadFromReader_body L ci rec = Some a"
  note e = body_Some(6) [OF b] and s = body_Some(7) [OF b]
  show "ElevationFt a = None" if "get L ci rec ''elevation_ft'' = []"
    using that e by (simp add: optInt_cases)
  show "ElevationFt a = Some 0" if "get L ci rec ''elevation_ft'' = ''0''"
    using that e by (simp only: optInt_cases)
  show "ElevationFt a = None" if "isl (ParseInt (get L ci rec ''elevation_ft''))"
    using that e by (simp add: optInt_cases)
  show "ElevationFt a = Some v" if "ParseInt (get L ci rec ''elevation_ft'') = Inr v" for v
    using that e by (simp add: optInt_cases)
  show "Score a = None" if "get L ci rec ''score'' = []"
    using that s by (simp add: optInt_cases)
  show "Score a = Some 0" if "get L ci rec ''score'' = ''0''"
    using that s by (simp only: optInt_cases)
  show "Score a = None" if "isl (ParseInt (get L ci rec ''score''))"
    using that s by (simp add: optInt_cases)
  show "Score a = Some v" if "ParseInt (get L ci rec ''score'') = Inr v" for v
    using that s by (simp add: optInt_cases)
next
  show "LoadFromReader_body L ci rec \<noteq> None \<longleftrightarrow>
        (\<exists>v. ParseInt (get L ci rec ''id'') = Inr v)
        \<and> ToUpper L (TrimSpace L (get L ci rec ''iata_code'')) \<noteq> []"
    by (cases "ParseInt (get L ci rec ''id'')") (auto simp: body_None_iff ParseInt_Nil)
next
  show "(None :: int option) \<noteq> Some 0" by simp
qed

theorem optional_integer_fields_witness:
  "LoadFromReader_body bytewise (header_index bytewise [''id'', ''iata_code'', ''elevation_ft'', ''score''])
       [''1'', ''AAA'', '''', ''0'']
     = Some (blank\<lparr> ID := 1, IATACode := ''AAA'', Score := Some 0 \<rparr>)
   \<and> ElevationFt (blank\<lparr> ID := 1, IATACode := ''AAA'', Score := Some 0 \<rparr>) = None
   \<and> Score (blank\<lparr> ID := 1, IATACode := ''AAA'', Score := Some 0 \<rparr>) = Some 0
   \<and> LoadFromReader_body bytewise (header_index bytewise [''id'', ''iata_code'', ''elevation_ft'', ''score''])
       [''2'', ''BBB'', ''0'', ''high'']
     = Some (blank\<lparr> ID := 2, IATACode := ''BBB'', ElevationFt := Some 0 \<rparr>)
   \<and> ElevationFt (blank\<lparr> ID := 2, IATACode := ''BBB'', ElevationFt := Some 0 \<rparr>) = Some 0
   \<and> Score (blank\<lparr> ID := 2, IATACode := ''BBB'', ElevationFt := Some 0 \<rparr>) = None
   \<and> LoadFromReader_body bytewise (header_index bytewise [''id'', ''iata_code'', ''elevation_ft'', ''score''])
       [''3'', ''CCC'', ''12x'', ''-7'']
     = Some (blank\<lparr> ID := 3, IATACode := ''CCC'', Score := Some (- 7) \<rparr>)"
proof -
  let ?ci = "header_index bytewise [''id'', ''iata_code'', ''elevation_ft'', ''score'']"
  let ?a = "blank\<lparr> ID := 1, IATACode := ''AAA'', Score := Some 0 \<rparr>"
  let ?b = "blank\<lparr> ID := 2, IATACode := ''BBB'', ElevationFt := Some 0 \<rparr>"
  let ?c = "blank\<lparr> ID := 3, IATACode := ''CCC'', Score := Some (- 7) \<rparr>"
  have ba: "LoadFromReader_body bytewise ?ci [''1'', ''AAA'', '''', ''0''] = Some ?a"
    and bb: "LoadFromReader_body bytewise ?ci [''2'', ''BBB'', ''0'', ''high''] = Some ?b"
    and bc: "LoadFromReader_body bytewise ?ci [''3'', ''CCC'', ''12x'', ''-7''] = Some ?c"
    by (simp_all add: go_eval)
  have ga: "get bytewise ?ci [''1'', ''AAA'', '''', ''0''] ''elevation_ft'' = []"
    "get bytewise ?ci [''1'', ''AAA'', '''', ''0''] ''score'' = ''0''"
    and gb: "get bytewise ?ci [''2'', ''BBB'', ''0'', ''high''] ''elevation_ft'' = ''0''"
    "isl (ParseInt (get bytewise ?ci [''2'', ''BBB'', ''0'', ''high''] ''score''))"
    by (simp_all add: go_eval)
  from optional_integer_fields [of bytewise ?ci "[''1'', ''AAA'', '''', ''0'']" ?a] ba ga
  have a: "ElevationFt ?a = None" "Score ?a = Some 0" by blast+
  from optional_integer_fields [of bytewise ?ci "[''2'', ''BBB'', ''0'', ''high'']" ?b] bb gb
  have b: "ElevationFt ?b = Some 0" "Score ?b = None" by blast+
  from a b ba bb bc show ?thesis by simp
qed

section \<open>Lookup misses\<close>

text \<open>
  C7.  Lookup is a total function into an airport option and a flag, with no error value.
  The empty query misses in every store, every query misses in the nil store and in a store
  without the upper-cased key, and once the load of the default store has failed every
  \<open>LookupIATA\<close> misses and leaves the cached error in place.
\<close>

theorem lookup_miss_never_fails:
  "Store_LookupIATA s [] = (None, False)
   \<and> Store_LookupIATA None code = (None, False)
   \<and> (byIATA st (toUpperASCII code) = None \<longrightarrow> Store_LookupIATA (Some st) code = (None, False))
   \<and> (loadOnce g \<and> loadErr g \<noteq> None \<longrightarrow> LookupIATA L sys g code = ((None, False), g))
   \<and> (LoadFromFile L sys (defaultCSVPath sys) = Inl err \<longrightarrow>
        (\<exists>g'. LookupIATA L sys init_globals code = ((None, False), g')
              \<and> loadOnce g' \<and> loadErr g' \<noteq> None \<and> defaultStore g' = None))"
proof (intro conjI impI)
  show "Store_LookupIATA s [] = (None, False)"
    by (simp add: Store_LookupIATA_def split: option.splits)
  show "Store_LookupIATA None code = (None, False)"
    by (simp add: Store_LookupIATA_def)
next
  assume "byIATA st (toUpperASCII code) = None"
  then show "Store_LookupIATA (Some st) code = (None, False)"
    by (simp add: Store_LookupIATA_def)
next
  assume "loadOnce g \<and> loadErr g \<noteq> None"
  then show "LookupIATA L sys g code = ((None, False), g)"
    by (auto simp: LookupIATA_def ensure_cached)
next
  assume "LoadFromFile L sys (defaultCSVPath sys) = Inl err"
  then show "\<exists>g'. LookupIATA L sys init_globals code = ((None, False), g')
              \<and> loadOnce g' \<and> loadErr g' \<noteq> None \<and> defaultStore g' = None"
    by (simp add: LookupIATA_def ensureDefaultStore_def init_globals_def Let_def)
qed

theorem lookup_miss_never_fails_witness:
  "LoadFromFile bytewise no_file (defaultCSVPath no_file) = Inl (Errorf ''open airports csv'' (IOError ''no such file''))
   \<and> byIATA \<lparr> byIATA = [''JFK'' \<mapsto> blank] \<rparr> (toUpperASCII ''lhr'') = None
   \<and> Store_LookupIATA (Some \<lparr> byIATA = [''JFK'' \<mapsto> blank] \<rparr>) ''lhr'' = (None, False)
   \<and> (\<exists>g'. LookupIATA bytewise no_file init_globals ''JFK'' = ((None, False), g')
          \<and> loadOnce g' \<and> loadErr g' \<noteq> None \<and> defaultStore g' = None
          \<and> LookupIATA bytewise no_file g' ''JFK'' = ((None, False), g'))"
proof -
  have f: "LoadFromFile bytewise no_file (defaultCSVPath no_file)
             = Inl (Errorf ''open airports csv'' (IOError ''no such file''))"
    by (simp add: LoadFromFile_def no_file_def)
  have m: "byIATA \<lparr> byIATA = [''JFK'' \<mapsto> blank] \<rparr> (toUpperASCII ''lhr'') = None"
    by (simp add: go_eval)
  from lookup_miss_never_fails [where st = "\<lparr> byIATA = [''JFK'' \<mapsto> blank] \<rparr>" and code = "''lhr''"] m
  have s: "Store_LookupIATA (Some \<lparr> byIATA = [''JFK'' \<mapsto> blank] \<rparr>) ''lhr'' = (None, False)"
    by blast
  from lookup_miss_never_fails [where L = bytewise and sys = no_file and code = "''JFK''"] f
  obtain g' where g': "LookupIATA bytewise no_file init_globals ''JFK'' = ((None, False), g')"
    "loadOnce g'" "loadErr g' \<noteq> None" "defaultStore g' = None"
    by blast
  from lookup_miss_never_fails [where L = bytewise and sys = no_file and code = "''JFK''" and g = g'] g'(2,3)
  have "LookupIATA bytewise no_file g' ''JFK'' = ((None, False), g')" by blast
  with f m s g' show ?thesis by blast
qed

section \<open>Scheduled service\<close>

text \<open>
  C8.  In the airport built from a row, \<open>Scheduled\<close> holds exactly when the lower-cased
  trimmed \<open>scheduled_service\<close> cell of the row is one of \<open>1\<close>, \<open>yes\<close>, \<open>true\<close>; for
  an ASCII cell that is exactly when the cell, without its surrounding ASCII white space, is
  one of the three up to the case of its letters.  A row without the column or without the
  cell, and an empty cell, give false.
\<close>

theorem scheduled_service_flag:
  assumes "LoadFromReader_body L ci rec = Some a"
  shows "(Scheduled a \<longleftrightarrow> ToLower L (get L ci rec ''scheduled_service'') \<in> {''1'', ''yes'', ''true''})
    \<and> (isASCII (get L ci rec ''scheduled_service'') \<longrightarrow>
         (Scheduled a \<longleftrightarrow> (\<exists>t \<in> {''1'', ''yes'', ''true''}.
                                 list_all2 caseVariant (get L ci rec ''scheduled_service'') t)))
    \<and> (ci ''scheduled_service'' = None \<or> get L ci rec ''scheduled_service'' = [] \<longrightarrow> \<not> Scheduled a)
    \<and> ((\<exists>i. ci ''scheduled_service'' = Some i \<and> length rec \<le> i) \<longrightarrow> \<not> Scheduled a)
    \<and> (\<forall>i. ci ''scheduled_service'' = Some i \<and> i < length rec \<longrightarrow>
          (Scheduled a \<longleftrightarrow> ToLower L (TrimSpace L (rec ! i)) \<in> {''1'', ''yes'', ''true''})
        \<and> (isASCII (rec ! i) \<longrightarrow>
             (Scheduled a \<longleftrightarrow> (\<exists>t \<in> {''1'', ''yes'', ''true''}.
                                     list_all2 caseVariant (asciiTrim (rec ! i)) t))))"
proof -
  let ?cell = "get L ci rec ''scheduled_service''"
  have s: "Scheduled a \<longleftrightarrow> ToLower L ?cell \<in> {''1'', ''yes'', ''true''}"
    using assms by (rule body_Some)
  have c2: "Scheduled a \<longleftrightarrow> (\<exists>t \<in> {''1'', ''yes'', ''true''}. list_all2 caseVariant ?cell t)"
    if "isASCII ?cell"
    using s truthy_ascii [OF that, of L] by (simp only:)
  have empty: "\<not> Scheduled a" if "?cell = []"
    using s that by (simp add: ToLower_def isASCII_def)
  have c3: "\<not> Scheduled a" if "ci ''scheduled_service'' = None \<or> ?cell = []"
  proof -
    from that have "?cell = []" by (auto simp: get_def)
    then show ?thesis by (rule empty)
  qed
  have c4: "\<not> Scheduled a" if "\<exists>i. ci ''scheduled_service'' = Some i \<and> length rec \<le> i"
  proof -
    from that have "?cell = []" by (auto simp: get_def)
    then show ?thesis by (rule empty)
  qed
  have c5a: "Scheduled a \<longleftrightarrow> ToLower L (TrimSpace L (rec ! i)) \<in> {''1'', ''yes'', ''true''}"
    if i: "ci ''scheduled_service'' = Some i \<and> i < length rec" for i
  proof -
    from i have g: "?cell = TrimSpace L (rec ! i)" by (simp add: get_def)
    show ?thesis using s by (simp only: g)
  qed
  have c5b: "Scheduled a \<longleftrightarrow> (\<exists>t \<in> {''1'', ''yes'', ''true''}.
                                     list_all2 caseVariant (asciiTrim (rec ! i)) t)"
    if i: "ci ''scheduled_service'' = Some i \<and> i < length rec" and asc: "isASCII (rec ! i)" for i
  proof -
    from asc have t: "TrimSpace L (rec ! i) = asciiTrim (rec ! i)" by (rule TrimSpace_ascii)
    from asc have "isASCII (asciiTrim (rec ! i))" by (rule isASCII_asciiTrim)
    from truthy_ascii [OF this, of L] c5a [OF i] show ?thesis by (simp only: t)
  qed
  show ?thesis
  proof (intro conjI impI allI)
    show "Scheduled a \<longleftrightarrow> ToLower L ?cell \<in> {''1'', ''yes'', ''true''}" by (rule s)
  next
    assume "isASCII ?cell"
    then show "Scheduled a \<longleftrightarrow> (\<exists>t \<in> {''1'', ''yes'', ''true''}. list_all2 caseVariant ?cell t)"
      by (rule c2)
  next
    assume "ci ''scheduled_service'' = None \<or> ?cell = []"
    then show "\<not> Scheduled a" by (rule c3)
  next
    assume "\<exists>i. ci ''scheduled_service'' = Some i \<and> length rec \<le> i"
    then show "\<not> Scheduled a" by (rule c4)
  next
    fix i assume "ci ''scheduled_service'' = Some i \<and> i < length rec"
    then show "Scheduled a \<longleftrightarrow> ToLower L (TrimSpace L (rec ! i)) \<in> {''1'', ''yes'', ''true''}"
      by (rule c5a)
  next
    fix i assume "ci ''scheduled_service'' = Some i \<and> i < length rec" and "isASCII (rec ! i)"
    then show "Scheduled a \<longleftrightarrow> (\<exists>t \<in> {''1'', ''yes'', ''true''}.
                                     list_all2 caseVariant (asciiTrim (rec ! i)) t)"
      by (rule c5b)
  qed
qed


theorem scheduled_service_flag_witness:
  "LoadFromReader_body bytewise (header_index bytewise [''id'', ''iata_code'', ''scheduled_service''])
       [''1'', ''BBB'', ''Yes'']
     = Some (blank\<lparr> ID := 1, IATACode := ''BBB'', Scheduled := True \<rparr>)
   \<and> Scheduled (blank\<lparr> ID := 1, IATACode := ''BBB'', Scheduled := True \<rparr>)
   \<and> LoadFromReader_body bytewise (header_index bytewise [''id'', ''iata_code'', ''scheduled_service''])
       [''2'', ''CCC'', ''0'']
     = Some (blank\<lparr> ID := 2, IATACode := ''CCC'' \<rparr>)
   \<and> \<not> Scheduled (blank\<lparr> ID := 2, IATACode := ''CCC'' \<rparr>)
   \<and> LoadFromReader_body bytewise (header_index bytewise [''id'', ''iata_code'', ''scheduled_service''])
       [''3'', ''DDD'']
     = Some (blank\<lparr> ID := 3, IATACode := ''DDD'' \<rparr>)
   \<and> \<not> Scheduled (blank\<lparr> ID := 3, IATACode := ''DDD'' \<rparr>)
   \<and> LoadFromReader_body bytewise (header_index bytewise [''id'', ''iata_code'', ''scheduled_service''])
       [''4'', ''EEE'', ''  TRUE '']
     = Some (blank\<lparr> ID := 4, IATACode := ''EEE'', Scheduled := True \<rparr>)
   \<and> asciiTrim ''  TRUE '' = ''TRUE''
   \<and> list_all2 caseVariant ''TRUE'' ''true''
   \<and> Scheduled (blank\<lparr> ID := 4, IATACode := ''EEE'', Scheduled := True \<rparr>)"
proof -
  let ?ci = "header_index bytewise [''id'', ''iata_code'', ''scheduled_service'']"
  let ?ry = "[''1'', ''BBB'', ''Yes'']"
  let ?rn = "[''2'', ''CCC'', ''0'']"
  let ?re = "[''3'', ''DDD'']"
  let ?rt = "[''4'', ''EEE'', ''  TRUE '']"
  let ?y = "blank\<lparr> ID := 1, IATACode := ''BBB'', Scheduled := True \<rparr>"
  let ?n = "blank\<lparr> ID := 2, IATACode := ''CCC'' \<rparr>"
  let ?e = "blank\<lparr> ID := 3, IATACode := ''DDD'' \<rparr>"
  let ?t = "blank\<lparr> ID := 4, IATACode := ''EEE'', Scheduled := True \<rparr>"
  have y: "LoadFromReader_body bytewise ?ci ?ry = Some ?y"
    and n: "LoadFromReader_body bytewise ?ci ?rn = Some ?n"
    and e: "LoadFromReader_body bytewise ?ci ?re = Some ?e"
    and t: "LoadFromReader_body bytewise ?ci ?rt = Some ?t"
    by (simp_all add: go_eval)
  have col: "?ci ''scheduled_service'' = Some 2 \<and> 2 < length ?ry"
    "?ci ''scheduled_service'' = Some 2 \<and> 2 < length ?rn"
    "?ci ''scheduled_service'' = Some 2 \<and> 2 < length ?rt"
    and short: "\<exists>i. ?ci ''scheduled_service'' = Some i \<and> length ?re \<le> i"
    by (simp_all add: go_eval)
  have asc: "isASCII (?ry ! 2)" "isASCII (?rn ! 2)" "isASCII (?rt ! 2)"
    by (simp_all add: isASCII_def byte_def RuneSelf_def)
  have trim: "asciiTrim (?ry ! 2) = ''Yes''" "asciiTrim (?rn ! 2) = ''0''"
    "asciiTrim (?rt ! 2) = ''TRUE''" "asciiTrim ''  TRUE '' = ''TRUE''"
    by (simp_all add: asciiTrim_def trimRightASCII_def asciiSpace_def byte_def)
  have v: "list_all2 caseVariant ''Yes'' ''yes''" "list_all2 caseVariant ''TRUE'' ''true''"
    by (simp_all add: caseVariant_def go_eval)
  have nv: "\<not> (\<exists>t \<in> {''1'', ''yes'', ''true''}. list_all2 caseVariant ''0'' t)"
    by (simp add: caseVariant_def go_eval)
  from scheduled_service_flag [OF y, THEN conjunct2, THEN conjunct2, THEN conjunct2,
      THEN conjunct2, THEN spec, THEN mp, OF col(1), THEN conjunct2, THEN mp, OF asc(1)] v(1)
  have sy: "Scheduled ?y" by (simp only: trim) blast
  from scheduled_service_flag [OF n, THEN conjunct2, THEN conjunct2, THEN conjunct2,
      THEN conjunct2, THEN spec, THEN mp, OF col(2), THEN conjunct2, THEN mp, OF asc(2)] nv
  have sn: "\<not> Scheduled ?n" by (simp only: trim) blast
  from scheduled_service_flag [OF e, THEN conjunct2, THEN conjunct2, THEN conjunct2,
      THEN conjunct1, THEN mp, OF short]
  have se: "\<not> Scheduled ?e" .
  from scheduled_service_flag [OF t, THEN conjunct2, THEN conjunct2, THEN conjunct2,
      THEN conjunct2, THEN spec, THEN mp, OF col(3), THEN conjunct2, THEN mp, OF asc(3)] v(2)
  have st: "Scheduled ?t" by (simp only: trim) blast
  from y n e t sy sn se st trim(4) v(2) show ?thesis by (intro conjI)
qed

section \<open>Coordinates\<close>

text \<open>
  C9, as a statement about every cell that \<open>ParseFloat\<close> rejects, fails.  For the cell
  \<open>1e999\<close> \<open>ParseFloat\<close> returns \<open>+Inf\<close> together with a range error; the loop drops
  the error and keeps the value, so the airport of the row \<open>1,AAA,1e999\<close> is indexed with
  the latitude \<open>+Inf\<close>, not 0.0.
\<close>

theorem coordinates_range_error_counterexample:
  "LoadFromReader bytewise [Inr [''id'', ''iata_code'', ''latitude_deg''], Inr [''1'', ''AAA'', ''1e999'']]
     = Inr \<lparr> byIATA = [''AAA'' \<mapsto> blank\<lparr> ID := 1, IATACode := ''AAA'', LatitudeDeg := 0x7FF0000000000000 \<rparr>] \<rparr>
   \<and> ParseFloat bytewise ''1e999'' = (0x7FF0000000000000, Some ErrRange)
   \<and> LatitudeDeg (blank\<lparr> ID := 1, IATACode := ''AAA'', LatitudeDeg := 0x7FF0000000000000 \<rparr>) \<noteq> float_zero"
  by (simp add: LoadFromReader_def go_eval float_inf_def float_zero_def)

text \<open>
  C9, amended.  In the airport built from a row, a \<open>latitude_deg\<close> or \<open>longitude_deg\<close>
  cell that is absent or empty after trimming, or that \<open>ParseFloat\<close> rejects with a syntax
  error, gives the coordinate 0.0; a cell that \<open>ParseFloat\<close> rejects with a range error
  gives \<open>+Inf\<close> or \<open>-Inf\<close>; in general the coordinate is the value \<open>ParseFloat\<close>
  returns for the trimmed cell.  Whether a row builds an airport depends on its \<open>id\<close> and
  \<open>iata_code\<close> cells alone, and the airport built from a row is in the index of a
  successful load under its code unless an earlier row carries the same code.
\<close>

theorem coordinates_by_parse_error:
  "(LoadFromReader_body L ci rec = Some a \<longrightarrow>
      coordinate_rule L ci rec ''latitude_deg'' (LatitudeDeg a)
    \<and> coordinate_rule L ci rec ''longitude_deg'' (LongitudeDeg a))
   \<and> (LoadFromReader_body L ci rec \<noteq> None \<longleftrightarrow>
        (\<exists>v. ParseInt (get L ci rec ''id'') = Inr v)
        \<and> ToUpper L (TrimSpace L (get L ci rec ''iata_code'')) \<noteq> [])
   \<and> (LoadFromReader L (Inr header # map Inr pre @ Inr rec # after) = Inr st
      \<and> LoadFromReader_body L (header_index L header) rec = Some a
      \<and> (\<forall>b \<in> set (built L (header_index L header) (map Inr pre)). IATACode b \<noteq> IATACode a)
      \<longrightarrow> byIATA st (IATACode a) = Some a)"
proof (intro conjI impI)
  assume b: "LoadFromReader_body L ci rec = Some a"
  from body_Some(4) [OF b] show "coordinate_rule L ci rec ''latitude_deg'' (LatitudeDeg a)"
    by (rule coordinate_ruleI)
  from body_Some(5) [OF b] show "coordinate_rule L ci rec ''longitude_deg'' (LongitudeDeg a)"
    by (rule coordinate_ruleI)
next
  show "LoadFromReader_body L ci rec \<noteq> None \<longleftrightarrow>
        (\<exists>v. ParseInt (get L ci rec ''id'') = Inr v)
        \<and> ToUpper L (TrimSpace L (get L ci rec ''iata_code'')) \<noteq> []"
    by (cases "ParseInt (get L ci rec ''id'')") (auto simp: body_None_iff ParseInt_Nil)
next
  assume "LoadFromReader L (Inr header # map Inr pre @ Inr rec # after) = Inr st
      \<and> LoadFromReader_body L (header_index L header) rec = Some a
      \<and> (\<forall>b \<in> set (built L (header_index L header) (map Inr pre)). IATACode b \<noteq> IATACode a)"
  then show "byIATA st (IATACode a) = Some a"
    using load_row_indexed [of L header pre rec after st a] by blast
qed

theorem coordinates_by_parse_error_witness:
  "LoadFromReader bytewise [Inr [''id'', ''iata_code'', ''latitude_deg'', ''longitude_deg''],
                            Inr [''1'', ''AAA'', '' 1.5 '', ''''],
                            Inr [''2'', ''BBB'', ''north''],
                            Inr [''3'', ''CCC'', ''1e999'', ''   '']]
     = Inr \<lparr> byIATA = [''AAA'' \<mapsto> blank\<lparr> ID := 1, IATACode := ''AAA'', LatitudeDeg := 0x3FF8000000000000 \<rparr>,
                         ''BBB'' \<mapsto> blank\<lparr> ID := 2, IATACode := ''BBB'' \<rparr>,
                         ''CCC'' \<mapsto> blank\<lparr> ID := 3, IATACode := ''CCC'', LatitudeDeg := 0x7FF0000000000000 \<rparr>] \<rparr>
   \<and> asciiTrim '' 1.5 '' = ''1.5''
   \<and> LatitudeDeg (blank\<lparr> ID := 1, IATACode := ''AAA'', LatitudeDeg := 0x3FF8000000000000 \<rparr>)
       = fst (ParseFloat bytewise ''1.5'')
   \<and> LongitudeDeg (blank\<lparr> ID := 1, IATACode := ''AAA'', LatitudeDeg := 0x3FF8000000000000 \<rparr>) = float_zero
   \<and> snd (ParseFloat bytewise ''north'') = Some ErrSyntax
   \<and> LatitudeDeg (blank\<lparr> ID := 2, IATACode := ''BBB'' \<rparr>) = float_zero
   \<and> LongitudeDeg (blank\<lparr> ID := 2, IATACode := ''BBB'' \<rparr>) = float_zero
   \<and> snd (ParseFloat bytewise ''1e999'') = Some ErrRange
   \<and> (LatitudeDeg (blank\<lparr> ID := 3, IATACode := ''CCC'', LatitudeDeg := 0x7FF0000000000000 \<rparr>) = float_inf False
        \<or> LatitudeDeg (blank\<lparr> ID := 3, IATACode := ''CCC'', LatitudeDeg := 0x7FF0000000000000 \<rparr>) = float_inf True)
   \<and> LongitudeDeg (blank\<lparr> ID := 3, IATACode := ''CCC'', LatitudeDeg := 0x7FF0000000000000 \<rparr>) = float_zero
   \<and> byIATA \<lparr> byIATA = [''AAA'' \<mapsto> blank\<lparr> ID := 1, IATACode := ''AAA'', LatitudeDeg := 0x3FF8000000000000 \<rparr>,
                         ''BBB'' \<mapsto> blank\<lparr> ID := 2, IATACode := ''BBB'' \<rparr>,
                         ''CCC'' \<mapsto> blank\<lparr> ID := 3, IATACode := ''CCC'', LatitudeDeg := 0x7FF0000000000000 \<rparr>] \<rparr>
        (IATACode (blank\<lparr> ID := 2, IATACode := ''BBB'' \<rparr>))
      = Some (blank\<lparr> ID := 2, IATACode := ''BBB'' \<rparr>)"
proof -
  let ?h = "[''id'', ''iata_code'', ''latitude_deg'', ''longitude_deg'']"
  let ?ci = "header_index bytewise ?h"
  let ?ra = "[''1'', ''AAA'', '' 1.5 '', '''']"
  let ?rb = "[''2'', ''BBB'', ''north'']"
  let ?rc = "[''3'', ''CCC'', ''1e999'', ''   '']"
  let ?a = "blank\<lparr> ID := 1, IATACode := ''AAA'', LatitudeDeg := 0x3FF8000000000000 \<rparr>"
  let ?b = "blank\<lparr> ID := 2, IATACode := ''BBB'' \<rparr>"
  let ?c = "blank\<lparr> ID := 3, IATACode := ''CCC'', LatitudeDeg := 0x7FF0000000000000 \<rparr>"
  let ?st = "\<lparr> byIATA = [''AAA'' \<mapsto> ?a, ''BBB'' \<mapsto> ?b, ''CCC'' \<mapsto> ?c] \<rparr>"
  have l: "LoadFromReader bytewise (Inr ?h # map Inr [?ra] @ Inr ?rb # [Inr ?rc]) = Inr ?st"
    by (simp add: LoadFromReader_def go_eval float_inf_def)
  have ba: "LoadFromReader_body bytewise ?ci ?ra = Some ?a"
    and bb: "LoadFromReader_body bytewise ?ci ?rb = Some ?b"
    and bc: "LoadFromReader_body bytewise ?ci ?rc = Some ?c"
    by (simp_all add: go_eval float_inf_def)
  have col: "?ci ''latitude_deg'' = Some 2 \<and> 2 < length ?ra"
    and asc: "isASCII (?ra ! 2)"
    and trim: "asciiTrim (?ra ! 2) = ''1.5''" "asciiTrim '' 1.5 '' = ''1.5''"
    and short: "\<exists>i. ?ci ''longitude_deg'' = Some i \<and> length ?rb \<le> i"
    by (simp_all add: go_eval isASCII_def asciiTrim_def)
  have ga: "get bytewise ?ci ?ra ''longitude_deg'' = []"
    and gb: "snd (ParseFloat bytewise (get bytewise ?ci ?rb ''latitude_deg'')) = Some ErrSyntax"
    and gc: "snd (ParseFloat bytewise (get bytewise ?ci ?rc ''latitude_deg'')) = Some ErrRange"
    and gd: "get bytewise ?ci ?rc ''longitude_deg'' = []"
    and s: "snd (ParseFloat bytewise ''north'') = Some ErrSyntax"
      "snd (ParseFloat bytewise ''1e999'') = Some ErrRange"
    by (simp_all add: go_eval)
  have f: "\<forall>b \<in> set (built bytewise ?ci (map Inr [?ra])). IATACode b \<noteq> IATACode ?b"
    by (simp add: go_eval)
  note A = coordinates_by_parse_error [where L = bytewise and ci = ?ci and rec = ?ra and a = ?a,
      THEN conjunct1, THEN mp, OF ba, unfolded coordinate_rule_def]
  note B = coordinates_by_parse_error [where L = bytewise and ci = ?ci and rec = ?rb and a = ?b,
      THEN conjunct1, THEN mp, OF bb, unfolded coordinate_rule_def]
  note C = coordinates_by_parse_error [where L = bytewise and ci = ?ci and rec = ?rc and a = ?c,
      THEN conjunct1, THEN mp, OF bc, unfolded coordinate_rule_def]
  from A [THEN conjunct1, THEN conjunct2, THEN conjunct1, THEN spec, THEN mp, OF col,
      THEN conjunct2, THEN mp, OF asc]
  have a1: "LatitudeDeg ?a = fst (ParseFloat bytewise ''1.5'')" by (simp only: trim)
  from A [THEN conjunct2, THEN conjunct2, THEN conjunct2, THEN conjunct1, THEN mp, OF ga]
  have a2: "LongitudeDeg ?a = float_zero" .
  from B [THEN conjunct1, THEN conjunct2, THEN conjunct2, THEN conjunct2, THEN conjunct1, THEN mp, OF gb]
  have b1: "LatitudeDeg ?b = float_zero" .
  from B [THEN conjunct2, THEN conjunct1, THEN mp, OF disjI2, OF short]
  have b2: "LongitudeDeg ?b = float_zero" .
  from C [THEN conjunct1, THEN conjunct2, THEN conjunct2, THEN conjunct2, THEN conjunct2, THEN mp, OF gc]
  have c1: "LatitudeDeg ?c = float_inf False \<or> LatitudeDeg ?c = float_inf True" .
  from C [THEN conjunct2, THEN conjunct2, THEN conjunct2, THEN conjunct1, THEN mp, OF gd]
  have c2: "LongitudeDeg ?c = float_zero" .
  from coordinates_by_parse_error [where L = bytewise and header = ?h and pre = "[?ra]" and rec = ?rb
      and after = "[Inr ?rc]" and st = ?st and a = ?b, THEN conjunct2, THEN conjunct2, THEN mp,
      OF conjI, OF l conjI, OF bb f]
  have e: "byIATA ?st (IATACode ?b) = Some ?b" .
  from l have l': "LoadFromReader bytewise [Inr ?h, Inr ?ra, Inr ?rb, Inr ?rc] = Inr ?st" by simp
  from l' trim(2) a1 a2 s(1) b1 b2 s(2) c1 c2 e show ?thesis by (intro conjI)
qed

section \<open>Keys of the index\<close>

text \<open>
  C10.  In the store of a successful load, an airport stored under the key \<open>k\<close> has the
  IATA code \<open>k\<close>, and \<open>k\<close> is not empty.  When the Unicode paths of the library keep
  \<open>strings_contract\<close>, or when all cells of the stream are ASCII, \<open>k\<close> holds no ASCII
  lower-case letter, trimming leaves \<open>k\<close> as it is, and the lookup of the airport's own
  code finds the airport.
\<close>

theorem index_keys_normalized:
  assumes load: "LoadFromReader L r = Inr st" and k: "byIATA st k = Some a"
  shows "IATACode a = k \<and> k \<noteq> []
    \<and> (strings_contract L \<or> ascii_reader r \<longrightarrow>
          list_all (\<lambda>c. \<not> isLowerASCII c) k \<and> TrimSpace L k = k
          \<and> Store_LookupIATA (Some st) (IATACode a) = (Some a, True))"
proof -
  from loaded_airport [OF load k] obtain ci rec
    where r: "Inr rec \<in> set r" and b: "LoadFromReader_body L ci rec = Some a"
      and a: "IATACode a = k" by blast
  let ?g = "get L ci rec ''iata_code''"
  from body_Some(2,3) [OF b] a
  have key: "k = ToUpper L (TrimSpace L ?g)" and ne: "k \<noteq> []"
    by simp_all
  have "list_all (\<lambda>c. \<not> isLowerASCII c) k \<and> TrimSpace L k = k
          \<and> Store_LookupIATA (Some st) (IATACode a) = (Some a, True)"
    if c: "strings_contract L \<or> ascii_reader r"
  proof -
    have "list_all isASCII rec" if "ascii_reader r"
      using that r by (auto simp: ascii_reader_def list_all_iff)
    with c have "strings_contract L \<or> isASCII ?g" using isASCII_get by blast
    from key_normalized [OF this] key
    have n: "TrimSpace L k = k" "list_all (\<lambda>c. \<not> isLowerASCII c) k" by simp_all
    from toUpperASCII_fixed [OF n(2)] k ne a
    have "Store_LookupIATA (Some st) (IATACode a) = (Some a, True)"
      by (simp add: Store_LookupIATA_def)
    with n show ?thesis by simp
  qed
  with a ne show ?thesis by simp
qed

theorem index_keys_normalized_witness:
  "strings_contract bytewise
   \<and> ascii_reader [Inr [''id'', ''iata_code'', ''name''], Inr [''1'', '' jfk '', ''John F Kennedy'']]
   \<and> LoadFromReader bytewise [Inr [''id'', ''iata_code'', ''name''], Inr [''1'', '' jfk '', ''John F Kennedy'']]
      = Inr \<lparr> byIATA = [''JFK'' \<mapsto> blank\<lparr> ID := 1, IATACode := ''JFK'', Name := ''John F Kennedy'' \<rparr>] \<rparr>
   \<and> list_all (\<lambda>c. \<not> isLowerASCII c) ''JFK''
   \<and> TrimSpace bytewise ''JFK'' = ''JFK''
   \<and> Store_LookupIATA
        (Some \<lparr> byIATA = [''JFK'' \<mapsto> blank\<lparr> ID := 1, IATACode := ''JFK'', Name := ''John F Kennedy'' \<rparr>] \<rparr>)
        ''JFK''
      = (Some (blank\<lparr> ID := 1, IATACode := ''JFK'', Name := ''John F Kennedy'' \<rparr>), True)"
proof -
  let ?r = "[Inr [''id'', ''iata_code'', ''name''], Inr [''1'', '' jfk '', ''John F Kennedy'']]"
  let ?a = "blank\<lparr> ID := 1, IATACode := ''JFK'', Name := ''John F Kennedy'' \<rparr>"
  let ?st = "\<lparr> byIATA = [''JFK'' \<mapsto> ?a] \<rparr>"
  have l: "LoadFromReader bytewise ?r = Inr ?st"
    by (simp add: LoadFromReader_def go_eval)
  have k: "byIATA ?st ''JFK'' = Some ?a" by simp
  have i: "IATACode ?a = ''JFK''" by (simp add: blank_def)
  have r: "ascii_reader ?r" by (simp add: ascii_reader_def isASCII_def byte_def RuneSelf_def)
  from index_keys_normalized [OF l k] bytewise_contract l i r
  show ?thesis by simp
qed

end
